theory Spec2Isabelle
  imports Main "HOL-Library.Sublist" "HOL-Library.Multiset"
begin

section \<open>Python strings\<close>

text \<open>
  A Python \<open>str\<close> is a sequence of Unicode code points; \<open>len\<close> and slicing count code
  points. The ellipsis \<open>U+2026\<close>, the en dash \<open>U+2013\<close> and the bullet \<open>U+2022\<close> of
  \<open>main.py\<close> are one character each, so a string is modelled as the list of its code
  points.
\<close>

type_synonym pystr = "nat list"

definition lit :: "string \<Rightarrow> pystr" where
  "lit cs = map of_char cs"

definition nl :: pystr where
  "nl = [10]"

definition ellipsis :: pystr where
  "ellipsis = [8230]"

text \<open>\<open>str.isspace\<close> of one code point (the table of CPython's \<open>_PyUnicode_IsWhitespace\<close>).\<close>

definition isspace :: "nat \<Rightarrow> bool" where
  "isspace c \<longleftrightarrow>
     (9 \<le> c \<and> c \<le> 13) \<or> (28 \<le> c \<and> c \<le> 32) \<or> c = 133 \<or> c = 160 \<or> c = 5760 \<or>
     (8192 \<le> c \<and> c \<le> 8202) \<or> c = 8232 \<or> c = 8233 \<or> c = 8239 \<or> c = 8287 \<or> c = 12288"

text \<open>The line boundaries of \<open>str.splitlines\<close>.\<close>

definition is_linebreak :: "nat \<Rightarrow> bool" where
  "is_linebreak c \<longleftrightarrow>
     (10 \<le> c \<and> c \<le> 13) \<or> (28 \<le> c \<and> c \<le> 30) \<or> c = 133 \<or> c = 8232 \<or> c = 8233"

text \<open>\<open>s.strip()\<close> and \<open>s.strip(chars)\<close>.\<close>

definition strip :: "pystr \<Rightarrow> pystr" where
  "strip s = rev (dropWhile isspace (rev (dropWhile isspace s)))"

definition strip_chars :: "pystr \<Rightarrow> pystr \<Rightarrow> pystr" where
  "strip_chars chars s =
     rev (dropWhile (\<lambda>c. c \<in> set chars) (rev (dropWhile (\<lambda>c. c \<in> set chars) s)))"

text \<open>
  \<open>s.splitlines()\<close>: a carriage return followed by a line feed is one boundary, and a
  boundary at the very end opens no further line.
\<close>

fun splitlines :: "pystr \<Rightarrow> pystr list" where
  "splitlines [] = []"
| "splitlines [c] = (if is_linebreak c then [[]] else [[c]])"
| "splitlines (c # d # ds) =
     (if c = 13 \<and> d = 10 then [] # splitlines ds
      else if is_linebreak c then [] # splitlines (d # ds)
      else (case splitlines (d # ds) of
              [] \<Rightarrow> [[c]]
            | l # ls \<Rightarrow> (c # l) # ls))"

text \<open>\<open>s.split(sep)\<close> for a separator of one character: empty pieces are kept.\<close>

fun split_on :: "nat \<Rightarrow> pystr \<Rightarrow> pystr list" where
  "split_on sep [] = [[]]"
| "split_on sep (c # cs) =
     (if c = sep then [] # split_on sep cs
      else (case split_on sep cs of
              [] \<Rightarrow> [[c]]
            | l # ls \<Rightarrow> (c # l) # ls))"

text \<open>
  \<open>s.split()\<close>: the maximal runs of characters that are not whitespace. The first
  argument is the word read so far.
\<close>

fun split_ws_from :: "pystr \<Rightarrow> pystr \<Rightarrow> pystr list" where
  "split_ws_from cur [] = (if cur = [] then [] else [cur])"
| "split_ws_from cur (c # cs) =
     (if isspace c then (if cur = [] then split_ws_from [] cs else cur # split_ws_from [] cs)
      else split_ws_from (cur @ [c]) cs)"

definition split_ws :: "pystr \<Rightarrow> pystr list" where
  "split_ws s = split_ws_from [] s"

text \<open>\<open>sep.join(xs)\<close>.\<close>

fun join :: "pystr \<Rightarrow> pystr list \<Rightarrow> pystr" where
  "join sep [] = []"
| "join sep [x] = x"
| "join sep (x # y # ys) = x @ sep @ join sep (y # ys)"

text \<open>\<open>x in s\<close> for strings: \<open>x\<close> occurs in \<open>s\<close> as a contiguous piece.\<close>

fun str_in :: "pystr \<Rightarrow> pystr \<Rightarrow> bool" where
  "str_in x [] = (x = [])"
| "str_in x (c # cs) = (take (length x) (c # cs) = x \<or> str_in x cs)"

text \<open>
  \<open>s.replace(old, new)\<close>: the occurrences of \<open>old\<close> are found from left to right and do
  not overlap; the search goes on after the replaced piece, so the text put in is never
  searched again by the same call. With an empty \<open>old\<close>, Python puts \<open>new\<close> before every
  character and at the end.
\<close>

function replace :: "pystr \<Rightarrow> pystr \<Rightarrow> pystr \<Rightarrow> pystr" where
  "replace old new [] = (if old = [] then new else [])"
| "replace old new (c # cs) =
     (if old = [] then new @ c # replace old new cs
      else if take (length old) (c # cs) = old
        then new @ replace old new (drop (length old) (c # cs))
      else c # replace old new cs)"
  by pat_completeness auto
termination
  by (relation "measure (\<lambda>(old, new, s). length s)") auto

text \<open>\<open>s.count(sub)\<close>: the number of occurrences that do not overlap.\<close>

function count_str :: "pystr \<Rightarrow> pystr \<Rightarrow> nat" where
  "count_str sub [] = (if sub = [] then 1 else 0)"
| "count_str sub (c # cs) =
     (if sub = [] then Suc (count_str sub cs)
      else if take (length sub) (c # cs) = sub
        then Suc (count_str sub (drop (length sub) (c # cs)))
      else count_str sub cs)"
  by pat_completeness auto
termination
  by (relation "measure (\<lambda>(sub, s). length s)") auto

text \<open>\<open>str(n)\<close> of a natural number, as an f-string prints it.\<close>

function str_nat :: "nat \<Rightarrow> pystr" where
  "str_nat n = (if n < 10 then [48 + n] else str_nat (n div 10) @ [48 + n mod 10])"
  by pat_completeness auto
termination
  by (relation "measure id") auto

declare str_nat.simps [simp del]

text \<open>
  \<open>s.lower()\<close> follows the Unicode case tables, which are not part of the repository: the
  functions below take it as the parameter \<open>lower\<close>, and every theorem holds for any such
  function. On ASCII text it is \<open>ascii_lower\<close>, which the examples use.
\<close>

definition ascii_lower :: "pystr \<Rightarrow> pystr" where
  "ascii_lower s = map (\<lambda>c. if 65 \<le> c \<and> c \<le> 90 then c + 32 else c) s"

section \<open>The transform rules of \<open>simple_rule_engine\<close>\<close>

text \<open>
  \<open>[p.strip() for p in body.split('.') if p.strip()]\<close>, the sentence segments that seven
  of the rules start from.
\<close>

definition segments :: "pystr \<Rightarrow> pystr list" where
  "segments body = [strip p. p \<leftarrow> split_on 46 body, strip p \<noteq> []]"

text \<open>\<open>x or y\<close> on strings: the empty string is false.\<close>

definition or_else :: "pystr \<Rightarrow> pystr \<Rightarrow> pystr" where
  "or_else x y = (if x = [] then y else x)"

definition bullet_points :: "pystr \<Rightarrow> pystr" where
  "bullet_points body =
     (let bullets = [lit ''- '' @ s. s \<leftarrow> segments body]
      in or_else (join nl bullets) body)"

definition short_version :: "pystr \<Rightarrow> pystr" where
  "short_version body =
     strip (take 220 body @ (if length body > 220 then ellipsis else []))"

definition eli5 :: "pystr \<Rightarrow> pystr" where
  "eli5 body =
     lit ''Imagine you are 5: '' @
     replace (lit '' thus'') (lit '' so'') (replace (lit '' therefore'') (lit '' so'') body)"

definition flashcards :: "pystr \<Rightarrow> pystr" where
  "flashcards body =
     (let parts = segments body
      in or_else
           (join nl [lit ''Term '' @ str_nat (i + 1) @ lit '': '' @ p @ nl @ lit ''Definition: '' @ p.
                     (i, p) \<leftarrow> enumerate 0 (take 8 parts)])
           body)"

definition mcqs :: "pystr \<Rightarrow> pystr" where
  "mcqs body =
     (let qs = take 5 (segments body);
          out = concat [[lit ''Q'' @ str_nat (i + 1) @ lit ''. '' @ q @ lit ''?'',
                         lit ''A) Option 1'', lit ''B) Option 2'', lit ''C) Option 3'',
                         lit ''D) Option 4'', lit ''Answer: A'']. (i, q) \<leftarrow> enumerate 0 qs]
      in or_else (join nl out) body)"

definition short_questions :: "pystr \<Rightarrow> pystr" where
  "short_questions body =
     (let qs = take 5 (segments body)
      in or_else
           (join nl [lit ''Q'' @ str_nat (i + 1) @ lit ''. '' @ q @ lit ''?'' @ nl @ lit ''Ans: ...''.
                     (i, q) \<leftarrow> enumerate 0 qs])
           body)"

definition chapter_summary :: "pystr \<Rightarrow> pystr" where
  "chapter_summary body =
     (let parts = segments body
      in or_else
           (join (nl @ nl)
              [lit ''Chapter '' @ str_nat (i + 1) @ lit '': '' @ p @ nl @ lit ''Summary: '' @ p.
               (i, p) \<leftarrow> enumerate 0 (take 6 parts)])
           body)"

definition mindmap :: "pystr \<Rightarrow> pystr" where
  "mindmap body =
     lit ''Topic'' @ nl @ lit ''  '' @ [9492, 9472] @ lit '' Subtopic 1'' @ nl @
     lit ''      '' @ [9492, 9472] @ lit '' Point A'' @ nl @
     lit ''  '' @ [9492, 9472] @ lit '' Subtopic 2'' @ nl @
     lit ''      '' @ [9492, 9472] @ lit '' Point B'' @ nl @ nl @ take 200 body"

text \<open>
  The loop of the tags rule: \<open>unique\<close> is the list built so far; a word not yet in it is
  appended, and the loop stops as soon as it holds six words.
\<close>

fun unique_loop :: "pystr list \<Rightarrow> pystr list \<Rightarrow> pystr list" where
  "unique_loop unique [] = unique"
| "unique_loop unique (w # ws) =
     (let unique' = (if w \<notin> set unique then unique @ [w] else unique)
      in if length unique' \<ge> 6 then unique' else unique_loop unique' ws)"

definition tag_words :: "(pystr \<Rightarrow> pystr) \<Rightarrow> pystr \<Rightarrow> pystr list" where
  "tag_words lower body =
     [lower (strip_chars (lit '',.:;!'' @ [34]) w). w \<leftarrow> split_ws body, length w > 4]"

definition smart_tags :: "(pystr \<Rightarrow> pystr) \<Rightarrow> pystr \<Rightarrow> pystr" where
  "smart_tags lower body =
     (let unique = unique_loop [] (tag_words lower body)
      in or_else (join (lit '', '') (take 6 unique)) (lit ''general, study''))"

definition study_plan :: pystr where
  "study_plan =
     lit ''7-Day Plan:'' @ nl @ lit ''- Day 1: Read basics'' @ nl @ lit ''- Day 2: Key terms'' @ nl @
     lit ''- Day 3: Practice'' @ nl @ lit ''- Day 4: Review'' @ nl @ lit ''- Day 5: Quiz'' @ nl @
     lit ''- Day 6: Revise'' @ nl @ lit ''- Day 7: Mock test'' @ nl @ nl @
     lit ''30-Day Plan:'' @ nl @ lit ''- Weeks 1-3: Deep dive and exercises'' @ nl @
     lit ''- Week 4: Consolidation, mocks, revision''"

definition compare_notes :: pystr where
  "compare_notes =
     lit ''Similarities: ...'' @ nl @ lit ''Differences: ...'' @ nl @ lit ''Key insights: ...''"

definition voice_cleanup :: "pystr \<Rightarrow> pystr" where
  "voice_cleanup body =
     replace (lit '' kinda '') (lit '' '')
       (replace (lit '' um '') (lit '' '') (replace (lit '' uh '') (lit '' '') body))"

definition pdf_extract_summary :: "pystr \<Rightarrow> pystr" where
  "pdf_extract_summary body =
     (let bullets = [[8226, 32] @ s. s \<leftarrow> segments body]
      in or_else (join nl bullets) body)"

definition summarize :: "pystr \<Rightarrow> pystr" where
  "summarize body =
     lit ''Summary: '' @ (take 400 body @ (if length body > 400 then ellipsis else []))"

definition rewrite :: "pystr \<Rightarrow> pystr" where
  "rewrite body =
     strip (replace (lit ''good'') (lit ''excellent'')
              (replace (lit ''very'') (lit ''extremely'') body))"

section \<open>Header, body and dispatch\<close>

text \<open>\<open>lines = [l.strip() for l in prompt.splitlines() if l.strip()]\<close>\<close>

definition prompt_lines :: "pystr \<Rightarrow> pystr list" where
  "prompt_lines prompt = [strip l. l \<leftarrow> splitlines prompt, strip l \<noteq> []]"

definition body_of :: "pystr \<Rightarrow> pystr" where
  "body_of prompt =
     (let lines = prompt_lines prompt
      in if length lines > 1 then join nl (tl lines)
         else (case lines of [] \<Rightarrow> [] | l # _ \<Rightarrow> l))"

definition header_of :: "pystr \<Rightarrow> pystr" where
  "header_of prompt = (case prompt_lines prompt of [] \<Rightarrow> [] | l # _ \<Rightarrow> l)"

text \<open>The chain of \<open>if "..." in header.lower()\<close> tests, in the order of the source.\<close>

definition apply_rules :: "(pystr \<Rightarrow> pystr) \<Rightarrow> pystr \<Rightarrow> pystr \<Rightarrow> pystr" where
  "apply_rules lower header body =
     (if str_in (lit ''bullet points'') (lower header) then bullet_points body
      else if str_in (lit ''short and crisp'') (lower header) then short_version body
      else if str_in (lit ''explain the following note like i am 5'') (lower header) then eli5 body
      else if str_in (lit ''flashcards'') (lower header) then flashcards body
      else if str_in (lit ''mcqs'') (lower header) then mcqs body
      else if str_in (lit ''short answer questions'') (lower header) then short_questions body
      else if str_in (lit ''chapters/sections'') (lower header) then chapter_summary body
      else if str_in (lit ''mindmap'') (lower header) then mindmap body
      else if str_in (lit ''generate 3'' @ [8211] @ lit ''6 topic tags'') (lower header)
        then smart_tags lower body
      else if str_in (lit ''study plan'') (lower header) then study_plan
      else if str_in (lit ''compare these two notes'') (lower header) then compare_notes
      else if str_in (lit ''clean and format this speech transcript'') (lower header)
        then voice_cleanup body
      else if str_in (lit ''extract main ideas'') (lower header) then pdf_extract_summary body
      else if str_in (lit ''summarize this note'') (lower header) then summarize body
      else if str_in (lit ''rewrite and improve'') (lower header) then rewrite body
      else body)"

definition simple_rule_engine :: "(pystr \<Rightarrow> pystr) \<Rightarrow> pystr \<Rightarrow> pystr" where
  "simple_rule_engine lower prompt = apply_rules lower (header_of prompt) (body_of prompt)"

section \<open>Flow execution: \<open>FLOW_PROMPTS\<close> and \<open>ai_tools\<close>\<close>

definition FLOW_PROMPTS :: "(pystr \<times> pystr) list" where
  "FLOW_PROMPTS =
    [(lit ''summarize'',
        lit ''Summarize this note clearly and simply:'' @ nl @ lit ''{{user_note}}''),
     (lit ''rewrite'',
        lit ''Rewrite and improve this text. Make it clean, clear, and high quality:'' @ nl @
        lit ''{{user_note}}''),
     (lit ''bullet_points'',
        lit ''Turn this into clean bullet points:'' @ nl @ lit ''{{user_note}}''),
     (lit ''short_version'',
        lit ''Create a short and crisp version of this:'' @ nl @ lit ''{{user_note}}''),
     (lit ''eli5'',
        lit ''Explain the following note like I am 5 years old:'' @ nl @ lit ''{{user_note}}''),
     (lit ''flashcards'',
        lit ''Create flashcards (term : definition) from this text:'' @ nl @ lit ''{{user_note}}''),
     (lit ''mcqs'',
        lit ''Create 5 MCQs with correct answers from this text:'' @ nl @ lit ''{{user_note}}''),
     (lit ''short_questions'',
        lit ''Create 5 short answer questions with answers from this text:'' @ nl @
        lit ''{{user_note}}''),
     (lit ''chapter_summary'',
        lit ''Split this note into chapters/sections and summarize each one:'' @ nl @
        lit ''{{user_note}}''),
     (lit ''mindmap'',
        lit ''Convert this note into a hierarchical mindmap:'' @ nl @ nl @ lit ''Topic'' @ nl @ nl @
        lit ''Subtopic'' @ nl @ nl @ lit ''Points'' @ nl @ lit ''Text: {{user_note}}''),
     (lit ''smart_tags'',
        lit ''Generate 3'' @ [8211] @ lit ''6 topic tags for this note:'' @ nl @ lit ''{{user_note}}''),
     (lit ''study_plan'',
        lit ''Create a 7-day and 30-day study plan for the following syllabus/topic:'' @ nl @
        lit ''{{user_syllabus}}''),
     (lit ''compare_notes'',
        lit ''Compare these two notes and list similarities, differences, and key insights:'' @ nl @
        lit ''Note 1: {{note1}}'' @ nl @ lit ''Note 2: {{note2}}''),
     (lit ''voice_cleanup'',
        lit ''Clean and format this speech transcript. Remove filler words.'' @ nl @
        lit ''Transcript: {{voice_text}}''),
     (lit ''pdf_extract_summary'',
        lit ''Extract main ideas and important points from this PDF text:'' @ nl @
        lit ''{{pdf_text}}''),
     (lit ''memory_recall'',
        lit ''From the saved notes, find the notes most related to: {{query}}'' @ nl @
        lit ''Summarize the findings in simple language.'')]"

record AIRequest =
  flow :: pystr
  user_note :: "pystr option"
  user_syllabus :: "pystr option"
  note1 :: "pystr option"
  note2 :: "pystr option"
  voice_text :: "pystr option"
  pdf_text :: "pystr option"
  query :: "pystr option"

text \<open>\<open>v or ""\<close> for an optional string.\<close>

definition or_empty :: "pystr option \<Rightarrow> pystr" where
  "or_empty v = (case v of None \<Rightarrow> [] | Some s \<Rightarrow> s)"

text \<open>The chain of seven \<open>replace\<close> calls, the first call innermost.\<close>

definition interpolate :: "AIRequest \<Rightarrow> pystr \<Rightarrow> pystr" where
  "interpolate req prompt =
     replace (lit ''{{query}}'') (or_empty (query req))
       (replace (lit ''{{pdf_text}}'') (or_empty (pdf_text req))
         (replace (lit ''{{voice_text}}'') (or_empty (voice_text req))
           (replace (lit ''{{note2}}'') (or_empty (note2 req))
             (replace (lit ''{{note1}}'') (or_empty (note1 req))
               (replace (lit ''{{user_syllabus}}'') (or_empty (user_syllabus req))
                 (replace (lit ''{{user_note}}'') (or_empty (user_note req)) prompt))))))"

text \<open>\<open>HTTPException(status_code, detail)\<close>\<close>

datatype error = HTTPException nat pystr

definition ai_tools :: "(pystr \<Rightarrow> pystr) \<Rightarrow> AIRequest \<Rightarrow> error + pystr" where
  "ai_tools lower req =
     (case map_of FLOW_PROMPTS (flow req) of
        None \<Rightarrow> Inl (HTTPException 400 (lit ''Unknown flow''))
      | Some prompt \<Rightarrow> Inr (simple_rule_engine lower (interpolate req prompt)))"

section \<open>Recall: \<open>memory_recall\<close>\<close>

text \<open>
  A stored note as \<open>memory_recall\<close> reads it: the two text fields, each present or not,
  and the text that \<open>str\<close> gives for its \<open>_id\<close>. This is what \<open>save_note\<close> stores; the
  recall on documents that may hold other values comes after it.
\<close>

record stored_note =
  original_note :: "pystr option"
  processed_note :: "pystr option"
  note_id :: "pystr option"

text \<open>\<open>n.get(key, "")\<close>\<close>

definition get_or_empty :: "pystr option \<Rightarrow> pystr" where
  "get_or_empty v = (case v of None \<Rightarrow> [] | Some s \<Rightarrow> s)"

definition score :: "(pystr \<Rightarrow> pystr) \<Rightarrow> pystr \<Rightarrow> stored_note \<Rightarrow> nat" where
  "score lower q n =
     (let text = lower (get_or_empty (original_note n) @ lit '' '' @
                        get_or_empty (processed_note n))
      in count_str (lower q) text)"

text \<open>
  \<open>sorted(xs, key=key, reverse=True)\<close>. Python documents the result: ordered by key,
  largest first, and elements of equal key in the order they have in \<open>xs\<close>. The model
  inserts each element, from the last to the first, before the first element whose key
  is not larger.
\<close>

fun insert_reverse :: "('a \<Rightarrow> nat) \<Rightarrow> 'a \<Rightarrow> 'a list \<Rightarrow> 'a list" where
  "insert_reverse key x [] = [x]"
| "insert_reverse key x (y # ys) =
     (if key y \<le> key x then x # y # ys else y # insert_reverse key x ys)"

definition sorted_reverse :: "('a \<Rightarrow> nat) \<Rightarrow> 'a list \<Rightarrow> 'a list" where
  "sorted_reverse key xs = foldr (insert_reverse key) xs []"

text \<open>\<open>top = sorted(notes, key=score, reverse=True)[:5]\<close>\<close>

definition top_notes :: "(pystr \<Rightarrow> pystr) \<Rightarrow> pystr \<Rightarrow> stored_note list \<Rightarrow> stored_note list" where
  "top_notes lower q notes = take 5 (sorted_reverse (score lower q) notes)"

text \<open>\<open>n.get('processed_note') or n.get('original_note') or ''\<close>\<close>

definition digest_text :: "stored_note \<Rightarrow> pystr" where
  "digest_text n =
     (case processed_note n of
        Some (c # cs) \<Rightarrow> c # cs
      | _ \<Rightarrow> (case original_note n of
                Some (c # cs) \<Rightarrow> c # cs
              | _ \<Rightarrow> []))"

definition summary_line :: "stored_note \<Rightarrow> pystr" where
  "summary_line n = lit ''- '' @ take 80 (digest_text n) @ lit ''...''"

text \<open>\<open>str(n.get("_id"))\<close>\<close>

definition id_str :: "stored_note \<Rightarrow> pystr" where
  "id_str n = (case note_id n of None \<Rightarrow> lit ''None'' | Some i \<Rightarrow> i)"

record recall =
  summary :: pystr
  matches :: "pystr list"

text \<open>
  \<open>get_documents\<close> belongs to the storage module: \<open>fetched\<close> is what the call gives, the
  notes or the text of the exception it raised, which the handler turns into the
  error of status 500.
\<close>

definition memory_recall :: "(pystr \<Rightarrow> pystr) \<Rightarrow> pystr + stored_note list \<Rightarrow> pystr \<Rightarrow> error + recall" where
  "memory_recall lower fetched q =
     (case fetched of
        Inl msg \<Rightarrow> Inl (HTTPException 500 msg)
      | Inr notes \<Rightarrow>
          (let ranked = top_notes lower q notes
           in Inr \<lparr>summary = join nl (map summary_line ranked),
                    matches = map id_str ranked\<rparr>))"

section \<open>Recall over documents as the store returns them\<close>

text \<open>
  A document comes from the store as a dictionary, and \<open>memory_recall\<close> does not check
  what it holds: a field may be absent, hold text, or hold a value that is not text.
  \<open>None\<close> (a null in the store) stands for the values that are not text. The functions
  below follow \<open>memory_recall\<close> on such documents; \<open>Inl\<close> carries the text of the
  \<open>TypeError\<close> that Python raises.
\<close>

datatype pyval = PyNone | PyStr pystr

record document =
  doc_original_note :: "pyval option"
  doc_processed_note :: "pyval option"
  doc_id :: "pystr option"

text \<open>The messages of \<open>None + " "\<close> and of \<open>"..." + None\<close>.\<close>

definition none_plus_str :: pystr where
  "none_plus_str =
     lit ''unsupported operand type(s) for +: '' @ [39] @ lit ''NoneType'' @ [39] @
     lit '' and '' @ [39] @ lit ''str'' @ [39]"

definition str_plus_none :: pystr where
  "str_plus_none = lit ''can only concatenate str (not '' @ [34] @ lit ''NoneType'' @ [34] @
     lit '') to str''"

text \<open>\<open>n.get(key, "")\<close>: the default is used only when the key is absent.\<close>

definition get_default :: "pyval option \<Rightarrow> pyval" where
  "get_default v = (case v of None \<Rightarrow> PyStr [] | Some x \<Rightarrow> x)"

text \<open>
  \<open>score(n)\<close>: the first \<open>+\<close> fails when \<open>original_note\<close> is not text, the second when
  \<open>processed_note\<close> is not.
\<close>

definition doc_score :: "(pystr \<Rightarrow> pystr) \<Rightarrow> pystr \<Rightarrow> document \<Rightarrow> pystr + nat" where
  "doc_score lower q n =
     (case get_default (doc_original_note n) of
        PyNone \<Rightarrow> Inl none_plus_str
      | PyStr a \<Rightarrow>
          (case get_default (doc_processed_note n) of
             PyNone \<Rightarrow> Inl str_plus_none
           | PyStr b \<Rightarrow> Inr (count_str (lower q) (lower (a @ lit '' '' @ b)))))"

text \<open>
  \<open>sorted\<close> computes the key of every element, in the order of the list, before it
  compares any: the first key that raises ends the call.
\<close>

fun first_error :: "('a \<Rightarrow> pystr + nat) \<Rightarrow> 'a list \<Rightarrow> pystr option" where
  "first_error key [] = None"
| "first_error key (x # xs) =
     (case key x of Inl e \<Rightarrow> Some e | Inr k \<Rightarrow> first_error key xs)"

definition key_value :: "pystr + nat \<Rightarrow> nat" where
  "key_value r = (case r of Inl e \<Rightarrow> 0 | Inr k \<Rightarrow> k)"

text \<open>
  \<open>n.get('processed_note') or n.get('original_note') or ''\<close>: \<open>None\<close> and the empty string
  are false, so the result is text.
\<close>

definition doc_digest_text :: "document \<Rightarrow> pystr" where
  "doc_digest_text n =
     (case doc_processed_note n of
        Some (PyStr (c # cs)) \<Rightarrow> c # cs
      | _ \<Rightarrow> (case doc_original_note n of
                Some (PyStr (c # cs)) \<Rightarrow> c # cs
              | _ \<Rightarrow> []))"

definition doc_summary_line :: "document \<Rightarrow> pystr" where
  "doc_summary_line n = lit ''- '' @ take 80 (doc_digest_text n) @ lit ''...''"

definition doc_id_str :: "document \<Rightarrow> pystr" where
  "doc_id_str n = (case doc_id n of None \<Rightarrow> lit ''None'' | Some i \<Rightarrow> i)"

text \<open>
  \<open>memory_recall\<close> on documents: an exception of \<open>get_documents\<close> or of the scoring is
  caught by the handler and becomes the error of status 500 with the exception's text.
\<close>

definition memory_recall_documents ::
    "(pystr \<Rightarrow> pystr) \<Rightarrow> pystr + document list \<Rightarrow> pystr \<Rightarrow> error + recall" where
  "memory_recall_documents lower fetched q =
     (case fetched of
        Inl msg \<Rightarrow> Inl (HTTPException 500 msg)
      | Inr docs \<Rightarrow>
          (case first_error (doc_score lower q) docs of
             Some msg \<Rightarrow> Inl (HTTPException 500 msg)
           | None \<Rightarrow>
               (let ranked = take 5 (sorted_reverse (\<lambda>n. key_value (doc_score lower q n)) docs)
                in Inr \<lparr>summary = join nl (map doc_summary_line ranked),
                         matches = map doc_id_str ranked\<rparr>)))"

section \<open>Definitions used to state the properties\<close>

text \<open>The flow identifiers, the keys of \<open>FLOW_PROMPTS\<close> in their order.\<close>

definition flow_ids :: "pystr list" where
  "flow_ids = map fst FLOW_PROMPTS"

text \<open>A request that sets no input, for the examples.\<close>

definition empty_request :: "pystr \<Rightarrow> AIRequest" where
  "empty_request f =
     \<lparr>flow = f, user_note = None, user_syllabus = None, note1 = None, note2 = None,
      voice_text = None, pdf_text = None, query = None\<rparr>"

text \<open>
  The dispatch as the ordered list of (matcher, rule) pairs, and the transform it
  describes: the rule of the first matcher that occurs in the lowercased header, or the
  body itself when none occurs.
\<close>

definition rule_table :: "(pystr \<Rightarrow> pystr) \<Rightarrow> (pystr \<times> (pystr \<Rightarrow> pystr)) list" where
  "rule_table lower =
     [(lit ''bullet points'', bullet_points),
      (lit ''short and crisp'', short_version),
      (lit ''explain the following note like i am 5'', eli5),
      (lit ''flashcards'', flashcards),
      (lit ''mcqs'', mcqs),
      (lit ''short answer questions'', short_questions),
      (lit ''chapters/sections'', chapter_summary),
      (lit ''mindmap'', mindmap),
      (lit ''generate 3'' @ [8211] @ lit ''6 topic tags'', smart_tags lower),
      (lit ''study plan'', \<lambda>body. study_plan),
      (lit ''compare these two notes'', \<lambda>body. compare_notes),
      (lit ''clean and format this speech transcript'', voice_cleanup),
      (lit ''extract main ideas'', pdf_extract_summary),
      (lit ''summarize this note'', summarize),
      (lit ''rewrite and improve'', rewrite)]"

definition matchers :: "pystr list" where
  "matchers =
     [lit ''bullet points'', lit ''short and crisp'',
      lit ''explain the following note like i am 5'', lit ''flashcards'', lit ''mcqs'',
      lit ''short answer questions'', lit ''chapters/sections'', lit ''mindmap'',
      lit ''generate 3'' @ [8211] @ lit ''6 topic tags'', lit ''study plan'',
      lit ''compare these two notes'', lit ''clean and format this speech transcript'',
      lit ''extract main ideas'', lit ''summarize this note'', lit ''rewrite and improve'']"

definition first_match :: "(pystr \<Rightarrow> pystr) \<Rightarrow> pystr \<Rightarrow> (pystr \<times> (pystr \<Rightarrow> pystr)) option" where
  "first_match lower header = find (\<lambda>(m, r). str_in m (lower header)) (rule_table lower)"

definition transform_by_table :: "(pystr \<Rightarrow> pystr) \<Rightarrow> pystr \<Rightarrow> pystr \<Rightarrow> pystr" where
  "transform_by_table lower header body =
     (case first_match lower header of None \<Rightarrow> body | Some (m, r) \<Rightarrow> r body)"

text \<open>Three stored notes for the examples of the recall.\<close>

definition dogs_note :: stored_note where
  "dogs_note = \<lparr>original_note = Some (lit ''Dogs are loyal''), processed_note = None,
                 note_id = Some (lit ''n1'')\<rparr>"

definition cats_note :: stored_note where
  "cats_note = \<lparr>original_note = None, processed_note = Some (lit ''cats are great pets''),
                 note_id = Some (lit ''n2'')\<rparr>"

definition birds_note :: stored_note where
  "birds_note = \<lparr>original_note = Some (lit ''birds sing''), processed_note = Some [],
                  note_id = None\<rparr>"

text \<open>The matcher that wins for a header, if any.\<close>

definition selected :: "(pystr \<Rightarrow> pystr) \<Rightarrow> pystr \<Rightarrow> pystr option" where
  "selected lower header = map_option fst (first_match lower header)"

text \<open>The elements of a list in the order in which they are first seen, each once.\<close>

fun first_seen :: "'a list \<Rightarrow> 'a list" where
  "first_seen [] = []"
| "first_seen (x # xs) = x # first_seen (filter (\<lambda>y. y \<noteq> x) xs)"

text \<open>The characters that the tags rule strips from both ends of a word.\<close>

definition tag_punctuation :: pystr where
  "tag_punctuation = lit '',.:;!'' @ [34]"

text \<open>The tags of a body: the first six of its words as the tags rule reads them.\<close>

definition tags :: "(pystr \<Rightarrow> pystr) \<Rightarrow> pystr \<Rightarrow> pystr list" where
  "tags lower body = take 6 (first_seen (tag_words lower body))"

text \<open>The matcher of the tags rule and the header of the \<open>smart_tags\<close> template.\<close>

definition tags_matcher :: pystr where
  "tags_matcher = lit ''generate 3'' @ [8211] @ lit ''6 topic tags''"

definition tags_header :: pystr where
  "tags_header = lit ''Generate 3'' @ [8211] @ lit ''6 topic tags for this note:''"

text \<open>
  The seven input slots in the order in which \<open>interpolate\<close> replaces their tokens, the
  token and the input value of each.
\<close>

datatype slot = UserNote | UserSyllabus | Note1 | Note2 | VoiceText | PdfText | Query

definition slot_order :: "slot list" where
  "slot_order = [UserNote, UserSyllabus, Note1, Note2, VoiceText, PdfText, Query]"

fun token :: "slot \<Rightarrow> pystr" where
  "token UserNote = lit ''{{user_note}}''"
| "token UserSyllabus = lit ''{{user_syllabus}}''"
| "token Note1 = lit ''{{note1}}''"
| "token Note2 = lit ''{{note2}}''"
| "token VoiceText = lit ''{{voice_text}}''"
| "token PdfText = lit ''{{pdf_text}}''"
| "token Query = lit ''{{query}}''"

fun input_value :: "AIRequest \<Rightarrow> slot \<Rightarrow> pystr" where
  "input_value req UserNote = or_empty (user_note req)"
| "input_value req UserSyllabus = or_empty (user_syllabus req)"
| "input_value req Note1 = or_empty (note1 req)"
| "input_value req Note2 = or_empty (note2 req)"
| "input_value req VoiceText = or_empty (voice_text req)"
| "input_value req PdfText = or_empty (pdf_text req)"
| "input_value req Query = or_empty (query req)"

text \<open>
  A template as a sequence of pieces of text and placeholders. \<open>render\<close> writes the
  placeholders as their tokens, which gives the template string; \<open>fill\<close> writes the input
  values in their place, as literal text.
\<close>

datatype piece = Text pystr | Slot slot

fun render_piece :: "piece \<Rightarrow> pystr" where
  "render_piece (Text t) = t"
| "render_piece (Slot s) = token s"

definition render :: "piece list \<Rightarrow> pystr" where
  "render ps = concat (map render_piece ps)"

fun fill_piece :: "AIRequest \<Rightarrow> piece \<Rightarrow> pystr" where
  "fill_piece req (Text t) = t"
| "fill_piece req (Slot s) = input_value req s"

definition fill :: "AIRequest \<Rightarrow> piece list \<Rightarrow> pystr" where
  "fill req ps = concat (map (fill_piece req) ps)"

definition FLOW_PIECES :: "(pystr \<times> piece list) list" where
  "FLOW_PIECES =
    [(lit ''summarize'',
        [Text (lit ''Summarize this note clearly and simply:'' @ nl), Slot UserNote]),
     (lit ''rewrite'',
        [Text (lit ''Rewrite and improve this text. Make it clean, clear, and high quality:'' @ nl),
         Slot UserNote]),
     (lit ''bullet_points'',
        [Text (lit ''Turn this into clean bullet points:'' @ nl), Slot UserNote]),
     (lit ''short_version'',
        [Text (lit ''Create a short and crisp version of this:'' @ nl), Slot UserNote]),
     (lit ''eli5'',
        [Text (lit ''Explain the following note like I am 5 years old:'' @ nl), Slot UserNote]),
     (lit ''flashcards'',
        [Text (lit ''Create flashcards (term : definition) from this text:'' @ nl), Slot UserNote]),
     (lit ''mcqs'',
        [Text (lit ''Create 5 MCQs with correct answers from this text:'' @ nl), Slot UserNote]),
     (lit ''short_questions'',
        [Text (lit ''Create 5 short answer questions with answers from this text:'' @ nl),
         Slot UserNote]),
     (lit ''chapter_summary'',
        [Text (lit ''Split this note into chapters/sections and summarize each one:'' @ nl),
         Slot UserNote]),
     (lit ''mindmap'',
        [Text (lit ''Convert this note into a hierarchical mindmap:'' @ nl @ nl @ lit ''Topic'' @
               nl @ nl @ lit ''Subtopic'' @ nl @ nl @ lit ''Points'' @ nl @ lit ''Text: ''),
         Slot UserNote]),
     (lit ''smart_tags'', [Text (tags_header @ nl), Slot UserNote]),
     (lit ''study_plan'',
        [Text (lit ''Create a 7-day and 30-day study plan for the following syllabus/topic:'' @ nl),
         Slot UserSyllabus]),
     (lit ''compare_notes'',
        [Text (lit ''Compare these two notes and list similarities, differences, and key insights:'' @
               nl @ lit ''Note 1: ''),
         Slot Note1, Text (nl @ lit ''Note 2: ''), Slot Note2]),
     (lit ''voice_cleanup'',
        [Text (lit ''Clean and format this speech transcript. Remove filler words.'' @ nl @
               lit ''Transcript: ''),
         Slot VoiceText]),
     (lit ''pdf_extract_summary'',
        [Text (lit ''Extract main ideas and important points from this PDF text:'' @ nl),
         Slot PdfText]),
     (lit ''memory_recall'',
        [Text (lit ''From the saved notes, find the notes most related to: ''), Slot Query,
         Text (nl @ lit ''Summarize the findings in simple language.'')])]"

definition pieces_of :: "pystr \<Rightarrow> piece list" where
  "pieces_of f = (case map_of FLOW_PIECES f of None \<Rightarrow> [] | Some ps \<Rightarrow> ps)"

text \<open>
  No input value contains the token of a slot that is replaced after its own: checked
  for each slot against the slots that follow it in the order of replacement.
\<close>

fun no_later_token :: "AIRequest \<Rightarrow> slot list \<Rightarrow> bool" where
  "no_later_token req [] = True"
| "no_later_token req (s # later) =
     (list_all (\<lambda>t. \<not> str_in (token t) (input_value req s)) later \<and> no_later_token req later)"

definition literal_inputs :: "AIRequest \<Rightarrow> bool" where
  "literal_inputs req = no_later_token req slot_order"

text \<open>
  Two requests for the examples: one whose note holds the token of the query, and one
  whose first note holds the token of a slot that is replaced before its own.
\<close>

definition nested_request :: AIRequest where
  "nested_request =
     (empty_request (lit ''summarize''))
       \<lparr>user_note := Some (lit ''{{query}}''), query := Some (lit ''tulips'')\<rparr>"

definition compare_request :: AIRequest where
  "compare_request =
     (empty_request (lit ''compare_notes''))
       \<lparr>user_note := Some (lit ''unused''), note1 := Some (lit ''{{user_note}} first''),
        note2 := Some (lit ''second'')\<rparr>"

text \<open>
  A request of the flow \<open>memory_recall\<close> whose query brings both \<open>bullet points\<close> and
  \<open>short and crisp\<close> into the header and leaves a body of 300 characters, and the
  instruction it resolves to.
\<close>

definition crisp_bullet_request :: AIRequest where
  "crisp_bullet_request =
     (empty_request (lit ''memory_recall''))
       \<lparr>query := Some (lit ''bullet points, short and crisp'' @ nl @ replicate 257 120)\<rparr>"

definition crisp_bullet_prompt :: pystr where
  "crisp_bullet_prompt =
     lit ''From the saved notes, find the notes most related to: bullet points, short and crisp'' @
     nl @ replicate 257 120 @ nl @ lit ''Summarize the findings in simple language.''"

text \<open>
  A stored note as a document, a field of a document read as text (absent and \<open>None\<close>
  as the empty string), and the documents whose two note fields are each absent or text.
\<close>

definition as_document :: "stored_note \<Rightarrow> document" where
  "as_document n =
     \<lparr>doc_original_note = map_option PyStr (original_note n),
      doc_processed_note = map_option PyStr (processed_note n),
      doc_id = note_id n\<rparr>"

definition text_of :: "pyval option \<Rightarrow> pystr" where
  "text_of v = (case v of Some (PyStr s) \<Rightarrow> s | _ \<Rightarrow> [])"

definition text_fields :: "document \<Rightarrow> bool" where
  "text_fields n \<longleftrightarrow> doc_original_note n \<noteq> Some PyNone \<and> doc_processed_note n \<noteq> Some PyNone"

text \<open>A document whose \<open>original_note\<close> is present and holds \<open>None\<close>.\<close>

definition null_document :: document where
  "null_document =
     \<lparr>doc_original_note = Some PyNone, doc_processed_note = Some (PyStr (lit ''cats'')),
      doc_id = Some (lit ''n9'')\<rparr>"

section \<open>Facts about the string operations\<close>

lemma lit_eq_iff: "lit a = lit b \<longleftrightarrow> a = b"
proof -
  have "inj (of_char :: char \<Rightarrow> nat)"
    by (rule inj_of_char)
  then show ?thesis
    unfolding lit_def by (rule inj_map_eq_map)
qed

lemma strip_id:
  assumes "s \<noteq> []" "\<not> isspace (hd s)" "\<not> isspace (last s)"
  shows "strip s = s"
proof -
  from assms have a: "dropWhile isspace s = s"
    by (cases s) simp_all
  from assms have "dropWhile isspace (rev s) = rev s"
    by (cases "rev s") (simp_all add: last_rev [symmetric] hd_rev)
  with a show ?thesis
    by (simp add: strip_def)
qed

lemma strip_ends:
  assumes "strip s \<noteq> []"
  shows "\<not> isspace (hd (strip s)) \<and> \<not> isspace (last (strip s))"
proof -
  let ?t = "dropWhile isspace s"
  let ?u = "dropWhile isspace (rev ?t)"
  from assms have u: "?u \<noteq> []"
    by (simp add: strip_def)
  have t: "?t \<noteq> []"
  proof
    assume "?t = []"
    with u show False
      by simp
  qed
  from u have last_ok: "\<not> isspace (hd ?u)"
    by (rule hd_dropWhile)
  have "\<not> isspace (last ?u)"
  proof -
    from t have "\<not> isspace (hd ?t)"
      by (rule hd_dropWhile)
    then have "\<not> isspace (last (rev ?t))"
      using t by (simp add: last_rev)
    moreover have "last ?u = last (rev ?t)"
      using u by (metis last_appendR takeWhile_dropWhile_id)
    ultimately show ?thesis
      by simp
  qed
  with last_ok u show ?thesis
    by (simp add: strip_def hd_rev last_rev)
qed

lemma splitlines_line:
  assumes "\<forall>c\<in>set h. \<not> is_linebreak c"
  shows "splitlines (h @ 10 # b) = h # splitlines b"
  using assms
proof (induction h)
  case Nil
  show ?case
    by (cases b) (simp_all add: is_linebreak_def)
next
  case (Cons c h)
  from Cons.prems have c: "\<not> is_linebreak c"
    by simp
  then have c13: "c \<noteq> 13"
    by (auto simp: is_linebreak_def)
  obtain d ds where eq: "h @ 10 # b = d # ds"
    by (cases h) auto
  from Cons have "splitlines (h @ 10 # b) = h # splitlines b"
    by simp
  then have "splitlines (d # ds) = h # splitlines b"
    by (simp only: eq)
  with c c13 have "splitlines (c # d # ds) = (c # h) # splitlines b"
    by simp
  then have "splitlines (c # (h @ 10 # b)) = (c # h) # splitlines b"
    by (simp only: eq)
  then show ?case
    by simp
qed

lemma splitlines_single:
  assumes "\<forall>c\<in>set s. \<not> is_linebreak c" "s \<noteq> []"
  shows "splitlines s = [s]"
  using assms
proof (induction s rule: splitlines.induct)
  case 1
  then show ?case
    by simp
next
  case (2 c)
  then show ?case
    by simp
next
  case (3 c d ds)
  from "3.prems" have c: "\<not> is_linebreak c" and rest: "\<forall>x\<in>set (d # ds). \<not> is_linebreak x"
    by simp_all
  from c have c13: "c \<noteq> 13"
    by (auto simp: is_linebreak_def)
  from c c13 rest have "splitlines (d # ds) = [d # ds]"
    by (intro "3.IH"(3)) simp_all
  with c c13 show ?case
    by simp
qed

section \<open>Header and body\<close>

lemma prompt_lines_stripped:
  assumes "l \<in> set (prompt_lines prompt)"
  shows "l \<noteq> [] \<and> \<not> isspace (hd l) \<and> \<not> isspace (last l)"
proof -
  from assms obtain x where "l = strip x" "strip x \<noteq> []"
    by (auto simp: prompt_lines_def)
  then show ?thesis
    using strip_ends [of x] by simp
qed

lemma hd_join:
  assumes "xs \<noteq> []" "hd xs \<noteq> []"
  shows "join sep xs \<noteq> [] \<and> hd (join sep xs) = hd (hd xs)"
  using assms by (induction sep xs rule: join.induct) simp_all

lemma join_not_Nil:
  assumes "xs \<noteq> []" "last xs \<noteq> []"
  shows "join sep xs \<noteq> []"
  using assms by (induction sep xs rule: join.induct) simp_all

lemma last_join:
  assumes "xs \<noteq> []" "last xs \<noteq> []"
  shows "last (join sep xs) = last (last xs)"
  using assms
proof (induction sep xs rule: join.induct)
  case (3 sep x y ys)
  then have "join sep (y # ys) \<noteq> []"
    using join_not_Nil [of "y # ys" sep] by simp
  with 3 show ?case
    by simp
qed simp_all

lemma body_of_stripped:
  assumes "body_of prompt \<noteq> []"
  shows "\<not> isspace (hd (body_of prompt)) \<and> \<not> isspace (last (body_of prompt))"
proof (cases "length (prompt_lines prompt) > 1")
  case True
  then obtain l m ms where ls: "prompt_lines prompt = l # m # ms"
    by (cases "prompt_lines prompt"; cases "tl (prompt_lines prompt)") auto
  then have body: "body_of prompt = join nl (m # ms)"
    by (simp add: body_of_def)
  have m: "m \<noteq> [] \<and> \<not> isspace (hd m)"
    using prompt_lines_stripped [of m prompt] ls by simp
  have "last (m # ms) \<in> set (prompt_lines prompt)"
    unfolding ls by (metis last_in_set list.distinct(1) list.set_intros(2))
  then have e: "last (m # ms) \<noteq> [] \<and> \<not> isspace (last (last (m # ms)))"
    using prompt_lines_stripped by blast
  from m have "hd (join nl (m # ms)) = hd m"
    using hd_join [of "m # ms" nl] by simp
  moreover from e have "last (join nl (m # ms)) = last (last (m # ms))"
    using last_join [of "m # ms" nl] by blast
  ultimately show ?thesis
    using m e body by simp
next
  case False
  with assms obtain l where ls: "prompt_lines prompt = [l]" and "body_of prompt = l"
    by (cases "prompt_lines prompt") (auto simp: body_of_def)
  then show ?thesis
    using prompt_lines_stripped [of l prompt] by simp
qed

text \<open>A prompt of two lines that need no trimming: its header and its body.\<close>

lemma two_line_prompt:
  assumes "\<forall>c\<in>set h. \<not> is_linebreak c" "\<forall>c\<in>set b. \<not> is_linebreak c"
    and "h \<noteq> []" "\<not> isspace (hd h)" "\<not> isspace (last h)"
    and "b \<noteq> []" "\<not> isspace (hd b)" "\<not> isspace (last b)"
  shows "prompt_lines (h @ nl @ b) = [h, b]"
    and "header_of (h @ nl @ b) = h" and "body_of (h @ nl @ b) = b"
proof -
  have "splitlines (h @ nl @ b) = [h, b]"
    using assms by (simp add: nl_def splitlines_line splitlines_single)
  then show ls: "prompt_lines (h @ nl @ b) = [h, b]"
    using assms by (simp add: prompt_lines_def strip_id)
  then show "header_of (h @ nl @ b) = h" "body_of (h @ nl @ b) = b"
    by (simp_all add: header_of_def body_of_def)
qed

lemma one_line_prompt:
  assumes "\<forall>c\<in>set h. \<not> is_linebreak c" "h \<noteq> []" "\<not> isspace (hd h)" "\<not> isspace (last h)"
  shows "prompt_lines h = [h]"
  using assms by (simp add: prompt_lines_def splitlines_single strip_id)

section \<open>Dispatch\<close>

lemma apply_rules_table: "apply_rules lower header body = transform_by_table lower header body"
  unfolding apply_rules_def transform_by_table_def first_match_def rule_table_def
  by (simp split del: if_split add: if_distrib [of "case_option _ _"] cong: if_cong)

lemma matchers_table: "map fst (rule_table lower) = matchers"
  by (simp add: rule_table_def matchers_def)

section \<open>Unknown flows\<close>

lemma flow_ids_eq:
  "flow_ids =
     [lit ''summarize'', lit ''rewrite'', lit ''bullet_points'', lit ''short_version'',
      lit ''eli5'', lit ''flashcards'', lit ''mcqs'', lit ''short_questions'',
      lit ''chapter_summary'', lit ''mindmap'', lit ''smart_tags'', lit ''study_plan'',
      lit ''compare_notes'', lit ''voice_cleanup'', lit ''pdf_extract_summary'',
      lit ''memory_recall'']"
  by (simp add: flow_ids_def FLOW_PROMPTS_def)

lemma distinct_flow_ids: "distinct flow_ids"
  unfolding flow_ids_eq by (simp add: lit_def)

lemma lookup_None_iff: "map_of FLOW_PROMPTS k = None \<longleftrightarrow> k \<notin> set flow_ids"
  by (simp add: map_of_eq_None_iff flow_ids_def)

text \<open>
  Claim C5. The registry has 16 distinct flow identifiers. A request whose flow is none
  of them gets the error of status 400 with the detail \<open>Unknown flow\<close>, whatever its
  other fields hold (nothing is resolved or transformed on that path); a request whose
  flow is one of them gets an output; and \<open>ai_tools\<close> gives no other error.
\<close>

theorem ai_tools_unknown_flow:
  "length flow_ids = 16 \<and> distinct flow_ids \<and>
   (flow req \<notin> set flow_ids \<longrightarrow>
      ai_tools lower req = Inl (HTTPException 400 (lit ''Unknown flow''))) \<and>
   (flow req \<in> set flow_ids \<longrightarrow> (\<exists>out. ai_tools lower req = Inr out)) \<and>
   (\<forall>e. ai_tools lower req = Inl e \<longrightarrow>
      e = HTTPException 400 (lit ''Unknown flow'') \<and> flow req \<notin> set flow_ids)"
proof -
  have n: "length flow_ids = 16"
    unfolding flow_ids_eq by simp
  have unknown: "ai_tools lower req = Inl (HTTPException 400 (lit ''Unknown flow''))"
    if "flow req \<notin> set flow_ids"
    using that by (simp add: ai_tools_def lookup_None_iff [symmetric])
  have known: "\<exists>out. ai_tools lower req = Inr out" if "flow req \<in> set flow_ids"
  proof -
    from that have "map_of FLOW_PROMPTS (flow req) \<noteq> None"
      by (simp add: lookup_None_iff)
    then obtain p where "map_of FLOW_PROMPTS (flow req) = Some p"
      by blast
    then show ?thesis
      by (simp add: ai_tools_def)
  qed
  have only: "e = HTTPException 400 (lit ''Unknown flow'') \<and> flow req \<notin> set flow_ids"
    if "ai_tools lower req = Inl e" for e
  proof (cases "flow req \<in> set flow_ids")
    case True
    with known that show ?thesis by auto
  next
    case False
    with unknown that show ?thesis by simp
  qed
  from n distinct_flow_ids unknown known only show ?thesis
    by blast
qed

theorem ai_tools_unknown_flow_witness:
  "flow (empty_request (lit ''translate'')) \<notin> set flow_ids \<and>
   ai_tools ascii_lower (empty_request (lit ''translate'')) =
     Inl (HTTPException 400 (lit ''Unknown flow'')) \<and>
   flow (empty_request (lit ''eli5'')) \<in> set flow_ids \<and>
   (\<exists>out. ai_tools ascii_lower (empty_request (lit ''eli5'')) = Inr out)"
proof -
  have a: "flow (empty_request (lit ''translate'')) \<notin> set flow_ids"
    unfolding flow_ids_eq by (simp add: empty_request_def lit_def)
  have b: "flow (empty_request (lit ''eli5'')) \<in> set flow_ids"
    unfolding flow_ids_eq by (simp add: empty_request_def)
  from a b
    ai_tools_unknown_flow [of "empty_request (lit ''translate'')" ascii_lower]
    ai_tools_unknown_flow [of "empty_request (lit ''eli5'')" ascii_lower]
  show ?thesis
    by blast
qed

section \<open>Properties of the dispatch\<close>

text \<open>
  Claim C9. When no matcher occurs in the lowercased header, \<open>simple_rule_engine\<close> returns
  the body as it was taken from the prompt.
\<close>

theorem no_match_returns_body:
  assumes "\<forall>m\<in>set matchers. \<not> str_in m (lower (header_of prompt))"
  shows "simple_rule_engine lower prompt = body_of prompt"
  using assms by (simp add: simple_rule_engine_def apply_rules_def matchers_def)

theorem no_match_returns_body_witness:
  "header_of (lit ''Dear diary'' @ nl @ lit ''today was fine'') = lit ''Dear diary'' \<and>
   simple_rule_engine ascii_lower (lit ''Dear diary'' @ nl @ lit ''today was fine'') =
     lit ''today was fine''"
proof -
  let ?p = "lit ''Dear diary'' @ nl @ lit ''today was fine''"
  have h: "header_of ?p = lit ''Dear diary''" and b: "body_of ?p = lit ''today was fine''"
    by (rule two_line_prompt; simp add: lit_def is_linebreak_def isspace_def)+
  have "\<forall>m\<in>set matchers. \<not> str_in m (ascii_lower (lit ''Dear diary''))"
    by (simp add: matchers_def lit_def ascii_lower_def)
  then have "\<forall>m\<in>set matchers. \<not> str_in m (ascii_lower (header_of ?p))"
    by (simp only: h)
  from no_match_returns_body [of ascii_lower "?p", OF this] h b show ?thesis
    by simp
qed

text \<open>
  Claim C6. When the prompt has exactly one non-empty trimmed line, that line is the
  header and the body, and the result is the transform of the line by the rule that the
  line itself selects: the line unchanged when it contains no matcher, and otherwise the
  rule of the first matcher it contains, applied to the line.
\<close>

theorem single_line_is_header_and_body:
  assumes "prompt_lines prompt = [l]"
  shows "header_of prompt = l \<and> body_of prompt = l \<and>
         simple_rule_engine lower prompt = transform_by_table lower l l \<and>
         (first_match lower l = None \<longrightarrow> simple_rule_engine lower prompt = l) \<and>
         (\<forall>m r. first_match lower l = Some (m, r) \<longrightarrow> simple_rule_engine lower prompt = r l)"
proof -
  from assms have h: "header_of prompt = l" and b: "body_of prompt = l"
    by (simp_all add: header_of_def body_of_def)
  then have "simple_rule_engine lower prompt = transform_by_table lower l l"
    by (simp add: simple_rule_engine_def apply_rules_table)
  with h b show ?thesis
    by (simp add: transform_by_table_def)
qed

theorem single_line_is_header_and_body_witness:
  "prompt_lines (lit ''Use bullet points. Be brief'') = [lit ''Use bullet points. Be brief''] \<and>
   simple_rule_engine ascii_lower (lit ''Use bullet points. Be brief'') =
     lit ''- Use bullet points'' @ nl @ lit ''- Be brief''"
proof -
  let ?l = "lit ''Use bullet points. Be brief''"
  have ls: "prompt_lines ?l = [?l]"
    by (rule one_line_prompt; simp add: lit_def is_linebreak_def isspace_def)
  have "first_match ascii_lower ?l = Some (lit ''bullet points'', bullet_points)"
    by (simp add: first_match_def rule_table_def lit_def ascii_lower_def)
  with single_line_is_header_and_body [OF ls, of ascii_lower]
  have "simple_rule_engine ascii_lower ?l = bullet_points ?l"
    by blast
  moreover have "bullet_points ?l = lit ''- Use bullet points'' @ nl @ lit ''- Be brief''"
    by (simp add: bullet_points_def segments_def or_else_def strip_def isspace_def lit_def nl_def)
  ultimately show ?thesis
    using ls by simp
qed

text \<open>
  Claim C7, as the code has it. When the header contains \<open>short and crisp\<close> and does not
  contain \<open>bullet points\<close>, the one matcher tried before it, and the body has 300
  characters, the result is the first 220 characters of the body followed by the
  one-character ellipsis \<open>U+2026\<close>, 221 characters in all. The final \<open>strip\<close> removes
  nothing, because the body starts with a character of a trimmed line.
\<close>

theorem short_version_of_300:
  assumes "str_in (lit ''short and crisp'') (lower (header_of prompt))"
    and "\<not> str_in (lit ''bullet points'') (lower (header_of prompt))"
    and "length (body_of prompt) = 300"
  shows "simple_rule_engine lower prompt = take 220 (body_of prompt) @ [8230] \<and>
         length (simple_rule_engine lower prompt) = 221"
proof -
  let ?b = "body_of prompt"
  from assms(3) have ne: "?b \<noteq> []"
    by auto
  then have "\<not> isspace (hd ?b)"
    using body_of_stripped by blast
  moreover have "hd (take 220 ?b @ [8230]) = hd ?b"
    using ne by (cases ?b) simp_all
  ultimately have "strip (take 220 ?b @ [8230]) = take 220 ?b @ [8230]"
    by (intro strip_id) (simp_all add: isspace_def)
  with assms have "simple_rule_engine lower prompt = take 220 ?b @ [8230]"
    by (simp add: simple_rule_engine_def apply_rules_def short_version_def ellipsis_def)
  with assms(3) show ?thesis
    by simp
qed

theorem short_version_of_300_witness:
  "length (body_of (lit ''Create a short and crisp version of this:'' @ nl @ replicate 300 120)) = 300 \<and>
   simple_rule_engine ascii_lower
     (lit ''Create a short and crisp version of this:'' @ nl @ replicate 300 120) =
     replicate 220 120 @ [8230]"
proof -
  let ?h = "lit ''Create a short and crisp version of this:''"
  let ?p = "?h @ nl @ replicate 300 120"
  have h: "header_of ?p = ?h" and b: "body_of ?p = replicate 300 120"
    by (rule two_line_prompt; simp add: lit_def is_linebreak_def isspace_def)+
  have "str_in (lit ''short and crisp'') (ascii_lower ?h)"
    and "\<not> str_in (lit ''bullet points'') (ascii_lower ?h)"
    by (simp_all add: lit_def ascii_lower_def)
  with h b have "str_in (lit ''short and crisp'') (ascii_lower (header_of ?p))"
    and "\<not> str_in (lit ''bullet points'') (ascii_lower (header_of ?p))"
    and "length (body_of ?p) = 300"
    by simp_all
  from short_version_of_300 [of ascii_lower "?p", OF this] b show ?thesis
    by simp
qed

section \<open>The ranking of the recall\<close>

lemma set_insert_reverse: "set (insert_reverse key x ys) = insert x (set ys)"
  by (induction ys) auto

lemma mset_insert_reverse: "mset (insert_reverse key x ys) = add_mset x (mset ys)"
  by (induction ys) auto

lemma length_insert_reverse: "length (insert_reverse key x ys) = Suc (length ys)"
  by (induction ys) auto

lemma descending_insert_reverse:
  assumes "sorted_wrt (\<lambda>a b. key b \<le> key a) ys"
  shows "sorted_wrt (\<lambda>a b. key b \<le> key a) (insert_reverse key x ys)"
  using assms
proof (induction ys)
  case Nil
  show ?case
    by simp
next
  case (Cons y ys)
  show ?case
  proof (cases "key y \<le> key x")
    case True
    with Cons.prems show ?thesis
      by (auto intro: order_trans)
  next
    case False
    with Cons show ?thesis
      by (auto simp: set_insert_reverse)
  qed
qed

text \<open>An inserted element goes in front of the elements of its own key.\<close>

lemma filter_insert_reverse_same:
  "filter (\<lambda>y. key y = key x) (insert_reverse key x ys) = x # filter (\<lambda>y. key y = key x) ys"
  by (induction ys) auto

lemma filter_insert_reverse_other:
  "key x \<noteq> k \<Longrightarrow> filter (\<lambda>y. key y = k) (insert_reverse key x ys) = filter (\<lambda>y. key y = k) ys"
  by (induction ys) auto

lemma sorted_reverse_Cons:
  "sorted_reverse key (x # xs) = insert_reverse key x (sorted_reverse key xs)"
  by (simp add: sorted_reverse_def)

lemma mset_sorted_reverse: "mset (sorted_reverse key xs) = mset xs"
  by (induction xs) (simp_all add: sorted_reverse_def mset_insert_reverse)

lemma length_sorted_reverse: "length (sorted_reverse key xs) = length xs"
  by (induction xs) (simp_all add: sorted_reverse_def length_insert_reverse)

lemma descending_sorted_reverse: "sorted_wrt (\<lambda>a b. key b \<le> key a) (sorted_reverse key xs)"
proof (induction xs)
  case Nil
  show ?case
    by (simp add: sorted_reverse_def)
next
  case (Cons x xs)
  then show ?case
    unfolding sorted_reverse_Cons by (rule descending_insert_reverse)
qed

lemma stable_sorted_reverse:
  "filter (\<lambda>y. key y = k) (sorted_reverse key xs) = filter (\<lambda>y. key y = k) xs"
proof (induction xs)
  case Nil
  show ?case
    by (simp add: sorted_reverse_def)
next
  case (Cons x xs)
  show ?case
  proof (cases "key x = k")
    case True
    with Cons filter_insert_reverse_same [of key x "sorted_reverse key xs"] show ?thesis
      by (simp add: sorted_reverse_Cons)
  next
    case False
    with Cons show ?thesis
      by (simp add: sorted_reverse_Cons filter_insert_reverse_other)
  qed
qed

lemma prefix_filter_take: "prefix (filter P (take n xs)) (filter P xs)"
proof -
  have "filter P xs = filter P (take n xs) @ filter P (drop n xs)"
    by (metis append_take_drop_id filter_append)
  then show ?thesis
    by (simp add: prefix_def)
qed

lemma length_top_notes: "length (top_notes lower q notes) = min 5 (length notes)"
  by (simp add: top_notes_def length_sorted_reverse min.commute)

lemma score_dogs: "score ascii_lower (lit ''cats'') dogs_note = 0"
  by (simp add: score_def dogs_note_def get_or_empty_def lit_def ascii_lower_def)

lemma score_cats: "score ascii_lower (lit ''cats'') cats_note = 1"
  by (simp add: score_def cats_note_def get_or_empty_def lit_def ascii_lower_def)

lemma score_birds: "score ascii_lower (lit ''cats'') birds_note = 0"
  by (simp add: score_def birds_note_def get_or_empty_def lit_def ascii_lower_def)

lemma ranked_example:
  "sorted_reverse (score ascii_lower (lit ''cats'')) [dogs_note, cats_note, birds_note] =
     [cats_note, dogs_note, birds_note]"
  by (simp add: sorted_reverse_def score_dogs score_cats score_birds)

text \<open>
  Claim C8. For every query and every sequence of notes: the ranking is a rearrangement
  of the notes in which the score never increases, the notes of each score stand in the
  order they have in the input, and \<open>top\<close> is its first five elements at most, so the
  notes of each score that reach \<open>top\<close> are the first ones of the input, in input order.
  The identifiers returned are those of \<open>top\<close>, in that order.
\<close>

theorem recall_ranking_is_stable:
  "mset (sorted_reverse (score lower q) notes) = mset notes \<and>
   sorted_wrt (\<lambda>a b. score lower q b \<le> score lower q a) (sorted_reverse (score lower q) notes) \<and>
   (\<forall>k. filter (\<lambda>n. score lower q n = k) (sorted_reverse (score lower q) notes) =
        filter (\<lambda>n. score lower q n = k) notes) \<and>
   top_notes lower q notes = take 5 (sorted_reverse (score lower q) notes) \<and>
   length (top_notes lower q notes) \<le> 5 \<and>
   (\<forall>k. prefix (filter (\<lambda>n. score lower q n = k) (top_notes lower q notes))
              (filter (\<lambda>n. score lower q n = k) notes)) \<and>
   (\<exists>r. memory_recall lower (Inr notes) q = Inr r \<and>
        matches r = map id_str (top_notes lower q notes))"
proof -
  let ?ranked = "sorted_reverse (score lower q) notes"
  have "prefix (filter (\<lambda>n. score lower q n = k) (top_notes lower q notes))
          (filter (\<lambda>n. score lower q n = k) notes)" for k
    using prefix_filter_take [of "\<lambda>n. score lower q n = k" 5 ?ranked]
    by (simp add: top_notes_def stable_sorted_reverse)
  moreover have "length (top_notes lower q notes) \<le> 5"
    by (simp add: length_top_notes)
  moreover have "\<exists>r. memory_recall lower (Inr notes) q = Inr r \<and>
      matches r = map id_str (top_notes lower q notes)"
    by (simp add: memory_recall_def Let_def)
  ultimately show ?thesis
    by (simp add: mset_sorted_reverse descending_sorted_reverse stable_sorted_reverse
        top_notes_def)
qed

theorem recall_ranking_is_stable_witness:
  "top_notes ascii_lower (lit ''cats'') [dogs_note, cats_note, birds_note] =
     [cats_note, dogs_note, birds_note] \<and>
   filter (\<lambda>n. score ascii_lower (lit ''cats'') n = 0)
     (top_notes ascii_lower (lit ''cats'') [dogs_note, cats_note, birds_note]) =
     [dogs_note, birds_note]"
proof -
  let ?notes = "[dogs_note, cats_note, birds_note]"
  from recall_ranking_is_stable [of ascii_lower "lit ''cats''" ?notes]
  have top: "top_notes ascii_lower (lit ''cats'') ?notes =
      take 5 (sorted_reverse (score ascii_lower (lit ''cats'')) ?notes)"
    and stable: "filter (\<lambda>n. score ascii_lower (lit ''cats'') n = 0)
        (sorted_reverse (score ascii_lower (lit ''cats'')) ?notes) =
      filter (\<lambda>n. score ascii_lower (lit ''cats'') n = 0) ?notes"
    by blast+
  from top have t: "top_notes ascii_lower (lit ''cats'') ?notes = [cats_note, dogs_note, birds_note]"
    by (simp add: ranked_example)
  from stable have "filter (\<lambda>n. score ascii_lower (lit ''cats'') n = 0)
      [cats_note, dogs_note, birds_note] = [dogs_note, birds_note]"
    by (simp add: ranked_example score_dogs score_cats score_birds)
  with t show ?thesis
    by simp
qed

section \<open>Empty inputs and missing fields of the recall\<close>

lemma digest_text_eq:
  "digest_text n =
     (if get_or_empty (processed_note n) \<noteq> [] then get_or_empty (processed_note n)
      else get_or_empty (original_note n))"
  by (simp add: digest_text_def get_or_empty_def split: option.splits list.splits)

lemma recall_example:
  "memory_recall ascii_lower (Inr [dogs_note, cats_note, birds_note]) (lit ''cats'') =
     Inr \<lparr>summary = lit ''- cats are great pets...'' @ nl @ lit ''- Dogs are loyal...'' @ nl @
                     lit ''- birds sing...'',
          matches = [lit ''n2'', lit ''n1'', lit ''None'']\<rparr>"
proof -
  have "summary_line cats_note = lit ''- cats are great pets...''"
    and "summary_line dogs_note = lit ''- Dogs are loyal...''"
    and "summary_line birds_note = lit ''- birds sing...''"
    by (simp_all add: summary_line_def digest_text_def cats_note_def dogs_note_def
        birds_note_def lit_def)
  moreover have "id_str cats_note = lit ''n2''" "id_str dogs_note = lit ''n1''"
    "id_str birds_note = lit ''None''"
    by (simp_all add: id_str_def cats_note_def dogs_note_def birds_note_def)
  ultimately show ?thesis
    by (simp add: memory_recall_def top_notes_def ranked_example)
qed




section \<open>The recall on documents\<close>

lemma sorted_reverse_map:
  "sorted_reverse key (map f xs) = map f (sorted_reverse (\<lambda>x. key (f x)) xs)"
proof (induction xs)
  case Nil
  show ?case
    by (simp add: sorted_reverse_def)
next
  case (Cons x xs)
  have "insert_reverse key (f x) (map f ys) = map f (insert_reverse (\<lambda>x. key (f x)) x ys)" for ys
    by (induction ys) simp_all
  with Cons show ?case
    by (simp add: sorted_reverse_Cons)
qed

lemma doc_score_text:
  assumes "text_fields n"
  shows "doc_score lower q n =
    Inr (count_str (lower q)
           (lower (text_of (doc_original_note n) @ [32] @ text_of (doc_processed_note n))))"
proof -
  have "get_default v = PyStr (text_of v)" if "v \<noteq> Some PyNone" for v
    using that by (cases v) (auto simp: get_default_def text_of_def split: pyval.splits)
  with assms show ?thesis
    by (simp add: doc_score_def text_fields_def lit_def)
qed

lemma first_error_text:
  assumes "\<forall>n\<in>set docs. text_fields n"
  shows "first_error (doc_score lower q) docs = None"
  using assms by (induction docs) (simp_all add: doc_score_text)

lemma text_fields_as_document: "text_fields (as_document n)"
  by (auto simp: text_fields_def as_document_def)

lemma doc_score_as_document: "doc_score lower q (as_document n) = Inr (score lower q n)"
proof -
  have "text_of (map_option PyStr v) = get_or_empty v" for v
    by (cases v) (simp_all add: text_of_def get_or_empty_def)
  moreover have "doc_score lower q (as_document n) =
      Inr (count_str (lower q)
             (lower (text_of (doc_original_note (as_document n)) @ [32] @
                     text_of (doc_processed_note (as_document n)))))"
    using text_fields_as_document by (rule doc_score_text)
  ultimately show ?thesis
    by (simp add: score_def as_document_def lit_def)
qed

lemma doc_summary_line_as_document: "doc_summary_line (as_document n) = summary_line n"
  by (simp add: doc_summary_line_def summary_line_def doc_digest_text_def digest_text_def
      as_document_def split: option.splits list.splits)

lemma doc_id_str_as_document: "doc_id_str (as_document n) = id_str n"
  by (simp add: doc_id_str_def id_str_def as_document_def)

text \<open>On stored notes, whose fields are text or absent, the two recalls agree.\<close>

lemma memory_recall_documents_notes:
  "memory_recall_documents lower (Inr (map as_document notes)) q =
     memory_recall lower (Inr notes) q"
proof -
  have "first_error (doc_score lower q) (map as_document notes) = None"
    by (rule first_error_text) (simp add: text_fields_as_document)
  then show ?thesis
    by (simp add: memory_recall_documents_def memory_recall_def top_notes_def Let_def
        sorted_reverse_map doc_score_as_document key_value_def take_map
        doc_summary_line_as_document doc_id_str_as_document comp_def)
qed

lemma doc_digest_text_eq:
  "doc_digest_text n =
     (if text_of (doc_processed_note n) \<noteq> [] then text_of (doc_processed_note n)
      else text_of (doc_original_note n))"
  by (simp add: doc_digest_text_def text_of_def split: option.splits pyval.splits list.splits)

text \<open>
  Claim C10, as the code has it. For every sequence of documents in which
  \<open>original_note\<close> and \<open>processed_note\<close> are each absent or text, and every query, the
  recall returns a result, never the error: its digest has one line per document of
  \<open>top\<close> and it has as many matches as there are documents, up to five. Such a document
  scores as the count of the lowercased query in the lowercased text of the two fields
  with a space between them, an absent field read as the empty string: a document
  without a field scores as one whose field is the empty string. The digest line is made
  of \<open>processed_note\<close> when it is present and not empty, else of \<open>original_note\<close>, else of
  the empty string.
\<close>

theorem recall_total_on_text_fields:
  "((\<forall>n\<in>set docs. text_fields n) \<longrightarrow>
      (\<exists>r. memory_recall_documents lower (Inr docs) q = Inr r \<and>
           summary r =
             join nl (map doc_summary_line
               (take 5 (sorted_reverse (\<lambda>n. key_value (doc_score lower q n)) docs))) \<and>
           length (matches r) = min 5 (length docs))) \<and>
   (text_fields n \<longrightarrow>
      doc_score lower q n =
        Inr (count_str (lower q)
               (lower (text_of (doc_original_note n) @ [32] @ text_of (doc_processed_note n))))) \<and>
   doc_score lower q (n\<lparr>doc_original_note := None\<rparr>) =
     doc_score lower q (n\<lparr>doc_original_note := Some (PyStr [])\<rparr>) \<and>
   doc_score lower q (n\<lparr>doc_processed_note := None\<rparr>) =
     doc_score lower q (n\<lparr>doc_processed_note := Some (PyStr [])\<rparr>) \<and>
   text_of None = [] \<and>
   doc_summary_line n = [45, 32] @ take 80 (doc_digest_text n) @ [46, 46, 46] \<and>
   doc_digest_text n =
     (if text_of (doc_processed_note n) \<noteq> [] then text_of (doc_processed_note n)
      else text_of (doc_original_note n))"
proof -
  have "\<exists>r. memory_recall_documents lower (Inr docs) q = Inr r \<and>
           summary r =
             join nl (map doc_summary_line
               (take 5 (sorted_reverse (\<lambda>n. key_value (doc_score lower q n)) docs))) \<and>
           length (matches r) = min 5 (length docs)"
    if "\<forall>n\<in>set docs. text_fields n"
    using first_error_text [OF that, of lower q]
    by (simp add: memory_recall_documents_def Let_def length_sorted_reverse min.commute)
  moreover have "doc_score lower q (n\<lparr>doc_original_note := None\<rparr>) =
     doc_score lower q (n\<lparr>doc_original_note := Some (PyStr [])\<rparr>)"
    and "doc_score lower q (n\<lparr>doc_processed_note := None\<rparr>) =
     doc_score lower q (n\<lparr>doc_processed_note := Some (PyStr [])\<rparr>)"
    by (simp_all add: doc_score_def get_default_def split: option.splits pyval.splits)
  moreover have "doc_summary_line n = [45, 32] @ take 80 (doc_digest_text n) @ [46, 46, 46]"
    by (simp add: doc_summary_line_def lit_def)
  moreover have "text_of None = []"
    by (simp add: text_of_def)
  moreover note doc_digest_text_eq [of n] doc_score_text [of n lower q]
  ultimately show ?thesis
    by blast
qed

theorem recall_total_on_text_fields_witness:
  "text_fields (as_document birds_note) \<and>
   doc_digest_text (as_document birds_note) = lit ''birds sing'' \<and>
   doc_score ascii_lower (lit ''cats'') (as_document cats_note) = Inr 1 \<and>
   (\<exists>r. memory_recall_documents ascii_lower
          (Inr (map as_document [dogs_note, cats_note, birds_note])) (lit ''cats'') = Inr r \<and>
        length (matches r) = 3)"
proof -
  let ?docs = "map as_document [dogs_note, cats_note, birds_note]"
  have all: "\<forall>n\<in>set ?docs. text_fields n"
    by (simp add: text_fields_as_document)
  note total = recall_total_on_text_fields [of ?docs ascii_lower "lit ''cats''"]
  from total [of "as_document birds_note"]
  have "doc_digest_text (as_document birds_note) = lit ''birds sing''"
    by (simp add: as_document_def birds_note_def text_of_def)
  moreover from total [of "as_document cats_note"] text_fields_as_document [of cats_note]
  have "doc_score ascii_lower (lit ''cats'') (as_document cats_note) = Inr 1"
    by (simp add: as_document_def cats_note_def text_of_def lit_def ascii_lower_def)
  moreover from total [of "as_document birds_note"] all
  have e: "\<exists>r. memory_recall_documents ascii_lower (Inr ?docs) (lit ''cats'') = Inr r \<and>
      length (matches r) = min 5 (length ?docs)"
    by blast
  then have "\<exists>r. memory_recall_documents ascii_lower (Inr ?docs) (lit ''cats'') = Inr r \<and>
      length (matches r) = 3"
    by (simp add: numeral_3_eq_3)
  ultimately show ?thesis
    using text_fields_as_document [of birds_note] by blast
qed

text \<open>
  The claim as stated fails: a field that is absent is read as the empty string, but a
  field that is present with \<open>None\<close> is not. For the document whose \<open>original_note\<close>
  is \<open>None\<close>, the first \<open>+\<close> of the scoring raises, and the recall answers with the
  error of status 500 and the text of the exception.
\<close>

theorem recall_null_field_counterexample:
  "memory_recall_documents ascii_lower (Inr [null_document]) (lit ''cats'') =
     Inl (HTTPException 500 none_plus_str) \<and>
   doc_original_note null_document = Some PyNone"
  by (simp add: memory_recall_documents_def doc_score_def get_default_def null_document_def)

section \<open>The rule a header selects\<close>

lemma distinct_matchers: "distinct matchers"
  by (simp add: matchers_def lit_def)

lemma find_by_key:
  assumes "distinct (map fst tbl)" "(m, r) \<in> set tbl"
    and "map_option fst (find (\<lambda>(k, v). P k) tbl) = Some m"
  shows "find (\<lambda>(k, v). P k) tbl = Some (m, r)"
  using assms
proof (induction tbl)
  case Nil
  then show ?case
    by simp
next
  case (Cons e tbl)
  obtain k v where e: "e = (k, v)"
    by (cases e)
  show ?case
  proof (cases "P k")
    case True
    with Cons.prems e have "k = m"
      by simp
    with Cons.prems e have "v = r"
      by (auto simp: rev_image_eqI)
    with True e \<open>k = m\<close> show ?thesis
      by simp
  next
    case False
    with Cons.prems e have rest: "map_option fst (find (\<lambda>(k, v). P k) tbl) = Some m"
      by simp
    then obtain x where "find (\<lambda>(k, v). P k) tbl = Some x" "fst x = m"
      by auto
    then have "P m"
      by (auto simp: find_Some_iff)
    with False have "k \<noteq> m"
      by auto
    with Cons.prems e have "(m, r) \<in> set tbl"
      by simp
    with Cons rest have "find (\<lambda>(k, v). P k) tbl = Some (m, r)"
      by simp
    with False e show ?thesis
      by simp
  qed
qed

lemma selected_rule:
  assumes "selected lower header = Some m" and "(m, r) \<in> set (rule_table lower)"
  shows "apply_rules lower header body = r body"
proof -
  have "distinct (map fst (rule_table lower))"
    by (simp only: matchers_table distinct_matchers)
  with assms have "first_match lower header = Some (m, r)"
    unfolding selected_def first_match_def by (intro find_by_key)
  then show ?thesis
    by (simp add: apply_rules_table transform_by_table_def)
qed

section \<open>Facts about \<open>replace\<close>\<close>

lemma replace_absent:
  assumes "old \<noteq> []" "\<not> str_in old s"
  shows "replace old new s = s"
  using assms by (induction s) auto

lemma replace_length:
  assumes "length new \<le> length old" "old \<noteq> []"
  shows "length (replace old new s) \<le> length s"
  using assms
proof (induction old new s rule: replace.induct)
  case (1 old new)
  then show ?case
    by simp
next
  case (2 old new c cs)
  show ?case
  proof (cases "take (length old) (c # cs) = old")
    case True
    then have "length (take (length old) (c # cs)) = length old"
      by simp
    then have "length old \<le> length (c # cs)"
      by (simp only: length_take)
    moreover from 2 True
    have "length (replace old new (drop (length old) (c # cs))) \<le> length (c # cs) - length old"
      by simp
    ultimately show ?thesis
      using 2 True by simp
  next
    case False
    with 2 show ?thesis
      by simp
  qed
qed

section \<open>The voice-cleanup rule\<close>

lemma voice_template:
  "map_of FLOW_PROMPTS (lit ''voice_cleanup'') =
     Some (lit ''Clean and format this speech transcript. Remove filler words.'' @ nl @
           lit ''Transcript: {{voice_text}}'')"
  by (simp add: FLOW_PROMPTS_def lit_def)

lemma voice_header_selected:
  "selected ascii_lower (lit ''Clean and format this speech transcript. Remove filler words.'') =
     Some (lit ''clean and format this speech transcript'')"
  by (simp add: selected_def first_match_def rule_table_def lit_def ascii_lower_def)

lemma voice_rule_in_table:
  "(lit ''clean and format this speech transcript'', voice_cleanup) \<in> set (rule_table lower)"
  by (simp add: rule_table_def)

text \<open>
  Claim C4, as the code has it. When the header selects the voice-cleanup rule, the
  result is \<open>voice_cleanup\<close> of the body: three passes of \<open>replace\<close> in a row, for
  \<open> uh \<close>, then \<open> um \<close>, then \<open> kinda \<close> (each with its two spaces), every pass putting one
  space where it finds the filler, scanning from the left without overlap. A body that
  contains none of the three is returned as it is, and the result is never longer than
  the body.
\<close>

theorem voice_cleanup_three_passes:
  "(selected lower (header_of prompt) = Some (lit ''clean and format this speech transcript'') \<longrightarrow>
      simple_rule_engine lower prompt = voice_cleanup (body_of prompt)) \<and>
   voice_cleanup body =
     replace (lit '' kinda '') [32] (replace (lit '' um '') [32] (replace (lit '' uh '') [32] body)) \<and>
   (\<not> str_in (lit '' uh '') body \<and> \<not> str_in (lit '' um '') body \<and>
    \<not> str_in (lit '' kinda '') body \<longrightarrow> voice_cleanup body = body) \<and>
   length (voice_cleanup body) \<le> length body"
proof -
  have "simple_rule_engine lower prompt = voice_cleanup (body_of prompt)"
    if "selected lower (header_of prompt) = Some (lit ''clean and format this speech transcript'')"
    using selected_rule [OF that voice_rule_in_table] by (simp add: simple_rule_engine_def)
  moreover have "voice_cleanup body = body"
    if "\<not> str_in (lit '' uh '') body" "\<not> str_in (lit '' um '') body"
      "\<not> str_in (lit '' kinda '') body"
    using that by (simp add: voice_cleanup_def replace_absent lit_def)
  moreover have "length (voice_cleanup body) \<le> length body"
  proof -
    let ?a = "replace (lit '' uh '') (lit '' '') body"
    let ?b = "replace (lit '' um '') (lit '' '') ?a"
    have "length ?a \<le> length body"
      by (rule replace_length) (simp_all add: lit_def)
    moreover have "length ?b \<le> length ?a"
      by (rule replace_length) (simp_all add: lit_def)
    moreover have "length (replace (lit '' kinda '') (lit '' '') ?b) \<le> length ?b"
      by (rule replace_length) (simp_all add: lit_def)
    ultimately show ?thesis
      by (simp add: voice_cleanup_def)
  qed
  moreover have "lit '' '' = [32]"
    by (simp add: lit_def)
  ultimately show ?thesis
    by (simp add: voice_cleanup_def)
qed

theorem voice_cleanup_three_passes_witness:
  "simple_rule_engine ascii_lower
     (lit ''Clean and format this speech transcript. Remove filler words.'' @ nl @
      lit ''Transcript: so um yes'') = lit ''Transcript: so yes'' \<and>
   voice_cleanup (lit ''plain text'') = lit ''plain text''"
proof -
  let ?h = "lit ''Clean and format this speech transcript. Remove filler words.''"
  let ?p = "?h @ nl @ lit ''Transcript: so um yes''"
  have h: "header_of ?p = ?h" and b: "body_of ?p = lit ''Transcript: so um yes''"
    by (rule two_line_prompt; simp add: lit_def is_linebreak_def isspace_def)+
  have sel: "selected ascii_lower (header_of ?p) =
      Some (lit ''clean and format this speech transcript'')"
    by (simp only: h voice_header_selected)
  have "\<not> str_in (lit '' uh '') (lit ''plain text'') \<and> \<not> str_in (lit '' um '') (lit ''plain text'') \<and>
      \<not> str_in (lit '' kinda '') (lit ''plain text'')"
    by (simp add: lit_def)
  with voice_cleanup_three_passes [of ascii_lower ?p "lit ''plain text''"] sel
  have "simple_rule_engine ascii_lower ?p = voice_cleanup (body_of ?p)"
    and "voice_cleanup (lit ''plain text'') = lit ''plain text''"
    by blast+
  moreover have "voice_cleanup (lit ''Transcript: so um yes'') = lit ''Transcript: so yes''"
    by (simp add: voice_cleanup_def lit_def)
  ultimately show ?thesis
    by (simp add: b)
qed

text \<open>
  The claim as stated fails: the filler is replaced by a space, not removed, and of two
  fillers in a row the second stays, since its leading space was used up by the first.
  For the transcript \<open>a uh uh b\<close> the flow returns \<open>Transcript: a uh b\<close>, which still
  contains \<open> uh \<close>.
\<close>

theorem voice_cleanup_counterexample:
  "ai_tools ascii_lower
     ((empty_request (lit ''voice_cleanup''))\<lparr>voice_text := Some (lit ''a uh uh b'')\<rparr>) =
     Inr (lit ''Transcript: a uh b'') \<and>
   str_in (lit '' uh '') (lit ''Transcript: a uh b'')"
proof -
  let ?req = "(empty_request (lit ''voice_cleanup''))\<lparr>voice_text := Some (lit ''a uh uh b'')\<rparr>"
  let ?h = "lit ''Clean and format this speech transcript. Remove filler words.''"
  let ?b = "lit ''Transcript: a uh uh b''"
  have f: "flow ?req = lit ''voice_cleanup''"
    by (simp add: empty_request_def)
  have i: "interpolate ?req (?h @ nl @ lit ''Transcript: {{voice_text}}'') = ?h @ nl @ ?b"
    by (simp add: interpolate_def empty_request_def or_empty_def lit_def nl_def)
  have h: "header_of (?h @ nl @ ?b) = ?h" and b: "body_of (?h @ nl @ ?b) = ?b"
    by (rule two_line_prompt; simp add: lit_def is_linebreak_def isspace_def)+
  have "apply_rules ascii_lower ?h ?b = voice_cleanup ?b"
    using voice_header_selected voice_rule_in_table by (rule selected_rule)
  moreover have "voice_cleanup ?b = lit ''Transcript: a uh b''"
    by (simp add: voice_cleanup_def lit_def)
  ultimately have "simple_rule_engine ascii_lower (?h @ nl @ ?b) = lit ''Transcript: a uh b''"
    by (simp add: simple_rule_engine_def h b)
  then have "ai_tools ascii_lower ?req = Inr (lit ''Transcript: a uh b'')"
    by (simp add: ai_tools_def f voice_template i)
  moreover have "str_in (lit '' uh '') (lit ''Transcript: a uh b'')"
    by (simp add: lit_def)
  ultimately show ?thesis
    by simp
qed

section \<open>The tags rule\<close>

lemma set_first_seen: "set (first_seen xs) = set xs"
  by (induction xs rule: first_seen.induct) auto

lemma distinct_first_seen: "distinct (first_seen xs)"
  by (induction xs rule: first_seen.induct) (auto simp: set_first_seen)

text \<open>
  The loop, started with fewer than six words found, ends with the first six of: the
  words found, then the new words in the order they are first seen.
\<close>

lemma unique_loop_first_seen:
  assumes "length acc < 6"
  shows "unique_loop acc ws = take 6 (acc @ first_seen (filter (\<lambda>w. w \<notin> set acc) ws))"
  using assms
proof (induction ws arbitrary: acc)
  case Nil
  then show ?case
    by simp
next
  case (Cons w ws)
  show ?case
  proof (cases "w \<in> set acc")
    case True
    with Cons show ?thesis
      by simp
  next
    case new: False
    show ?thesis
    proof (cases "length acc = 5")
      case True
      with new show ?thesis
        by simp
    next
      case False
      with Cons.prems have "length (acc @ [w]) < 6"
        by simp
      then have "unique_loop (acc @ [w]) ws =
          take 6 ((acc @ [w]) @ first_seen (filter (\<lambda>x. x \<notin> set (acc @ [w])) ws))"
        by (rule Cons.IH)
      with new False Cons.prems show ?thesis
        by (simp add: Let_def conj_commute)
    qed
  qed
qed

lemma unique_loop_Nil: "unique_loop [] ws = take 6 (first_seen ws)"
  using unique_loop_first_seen [of "[]" ws] by simp

lemma smart_tags_eq:
  "smart_tags lower body =
     or_else (join (lit '', '') (take 6 (first_seen (tag_words lower body)))) (lit ''general, study'')"
  by (simp add: smart_tags_def unique_loop_Nil)

lemma tags_rule_in_table: "(tags_matcher, smart_tags lower) \<in> set (rule_table lower)"
  by (simp add: rule_table_def tags_matcher_def)

lemma comprehension_map_filter:
  "concat (map (\<lambda>x. if P x then [f x] else []) xs) = map f (filter P xs)"
  by (induction xs) simp_all

lemma tags_template:
  "map_of FLOW_PROMPTS (lit ''smart_tags'') =
     Some (tags_header @ nl @ lit ''{{user_note}}'')"
  by (simp add: FLOW_PROMPTS_def tags_header_def lit_def)

lemma tags_header_selected:
  "selected ascii_lower tags_header = Some tags_matcher"
  by (simp add: selected_def first_match_def rule_table_def tags_header_def tags_matcher_def
      lit_def ascii_lower_def)

text \<open>
  Claim C3, as the code has it. When the header selects the tags rule, the result is
  \<open>smart_tags\<close> of the body. The body is split on whitespace; a word is kept when the
  word as it stands in the body, before anything is stripped, has more than 4
  characters; the kept words are stripped of the characters \<open>, . : ; ! "\<close> at both ends
  and lowercased; each is taken once, in the order first seen, and at most six are
  taken. The output is these tags joined by a comma and a space, or \<open>general, study\<close>
  when that text is empty. So the tags are distinct, at most six, and each is the
  stripped and lowercased form of a word of the body of more than 4 characters (the tag
  itself may be shorter); and when the body has no word of more than 4 characters the
  output is \<open>general, study\<close>.
\<close>

theorem smart_tags_of_long_words:
  "(selected lower (header_of prompt) = Some tags_matcher \<longrightarrow>
      simple_rule_engine lower prompt = smart_tags lower (body_of prompt)) \<and>
   tag_words lower body =
     map (\<lambda>w. lower (strip_chars tag_punctuation w)) (filter (\<lambda>w. 4 < length w) (split_ws body)) \<and>
   tags lower body = take 6 (first_seen (tag_words lower body)) \<and>
   smart_tags lower body =
     (if join [44, 32] (tags lower body) = [] then lit ''general, study''
      else join [44, 32] (tags lower body)) \<and>
   distinct (tags lower body) \<and> length (tags lower body) \<le> 6 \<and>
   (\<forall>t\<in>set (tags lower body).
      \<exists>w\<in>set (split_ws body). 4 < length w \<and> t = lower (strip_chars tag_punctuation w)) \<and>
   ((\<forall>w\<in>set (split_ws body). length w \<le> 4) \<longrightarrow> smart_tags lower body = lit ''general, study'')"
proof -
  have dispatch: "simple_rule_engine lower prompt = smart_tags lower (body_of prompt)"
    if "selected lower (header_of prompt) = Some tags_matcher"
    using selected_rule [OF that tags_rule_in_table] by (simp add: simple_rule_engine_def)
  have words: "tag_words lower body =
      map (\<lambda>w. lower (strip_chars tag_punctuation w)) (filter (\<lambda>w. 4 < length w) (split_ws body))"
    by (simp add: tag_words_def tag_punctuation_def comprehension_map_filter)
  have out: "smart_tags lower body =
     (if join [44, 32] (tags lower body) = [] then lit ''general, study''
      else join [44, 32] (tags lower body))"
    by (simp add: smart_tags_eq tags_def or_else_def lit_def)
  have d: "distinct (tags lower body)"
    by (simp add: tags_def distinct_first_seen)
  have origin: "\<exists>w\<in>set (split_ws body). 4 < length w \<and> t = lower (strip_chars tag_punctuation w)"
    if "t \<in> set (tags lower body)" for t
  proof -
    from that have "t \<in> set (first_seen (tag_words lower body))"
      unfolding tags_def by (rule in_set_takeD)
    then have "t \<in> set (tag_words lower body)"
      by (simp add: set_first_seen)
    then show ?thesis
      unfolding words by auto
  qed
  have fallback: "smart_tags lower body = lit ''general, study''"
    if "\<forall>w\<in>set (split_ws body). length w \<le> 4"
  proof -
    from that have "filter (\<lambda>w. 4 < length w) (split_ws body) = []"
      by (auto simp: filter_empty_conv)
    then have "tags lower body = []"
      by (simp add: tags_def words)
    then show ?thesis
      by (simp add: out)
  qed
  from dispatch words out d origin fallback show ?thesis
    by (simp add: tags_def)
qed

lemma example_words:
  "split_ws (lit ''Energy, energy: plants make Energy.'') =
     [lit ''Energy,'', lit ''energy:'', lit ''plants'', lit ''make'', lit ''Energy.'']"
  by (simp add: split_ws_def lit_def isspace_def)

lemma example_tags:
  "tags ascii_lower (lit ''Energy, energy: plants make Energy.'') = [lit ''energy'', lit ''plants'']"
proof -
  have "tag_words ascii_lower (lit ''Energy, energy: plants make Energy.'') =
      [lit ''energy'', lit ''energy'', lit ''plants'', lit ''energy'']"
    by (simp add: tag_words_def example_words) (simp add: lit_def strip_chars_def ascii_lower_def)
  then show ?thesis
    by (simp add: tags_def) (simp add: lit_def)
qed

lemma example_short_words: "\<forall>w\<in>set (split_ws (lit ''a bee can fly'')). length w \<le> 4"
  by (simp add: split_ws_def lit_def isspace_def)

theorem smart_tags_of_long_words_witness:
  "simple_rule_engine ascii_lower
     (tags_header @ nl @ lit ''Energy, energy: plants make Energy.'') = lit ''energy, plants'' \<and>
   smart_tags ascii_lower (lit ''a bee can fly'') = lit ''general, study''"
proof -
  let ?b = "lit ''Energy, energy: plants make Energy.''"
  let ?p = "tags_header @ nl @ ?b"
  have "header_of ?p = tags_header" and b: "body_of ?p = ?b"
    by (rule two_line_prompt; simp add: tags_header_def lit_def is_linebreak_def isspace_def)+
  then have sel: "selected ascii_lower (header_of ?p) = Some tags_matcher"
    by (simp only: tags_header_selected)
  note long = smart_tags_of_long_words [of ascii_lower ?p ?b]
  from long have "selected ascii_lower (header_of ?p) = Some tags_matcher \<longrightarrow>
      simple_rule_engine ascii_lower ?p = smart_tags ascii_lower (body_of ?p)"
    by (rule conjunct1)
  with sel b have engine: "simple_rule_engine ascii_lower ?p = smart_tags ascii_lower ?b"
    by simp
  from long have "smart_tags ascii_lower ?b =
     (if join [44, 32] (tags ascii_lower ?b) = [] then lit ''general, study''
      else join [44, 32] (tags ascii_lower ?b))"
    by (elim conjE)
  then have "smart_tags ascii_lower ?b = lit ''energy, plants''"
    by (simp add: example_tags) (simp add: lit_def)
  with engine have first: "simple_rule_engine ascii_lower ?p = lit ''energy, plants''"
    by simp
  from smart_tags_of_long_words [of ascii_lower ?p "lit ''a bee can fly''"]
  have "(\<forall>w\<in>set (split_ws (lit ''a bee can fly'')). length w \<le> 4) \<longrightarrow>
      smart_tags ascii_lower (lit ''a bee can fly'') = lit ''general, study''"
    by (elim conjE)
  with example_short_words first show ?thesis
    by simp
qed

text \<open>
  The claim as stated fails: the length is tested before the punctuation is stripped.
  For the note \<open>x....\<close> the flow returns \<open>x\<close>, a word of one character, and not
  \<open>general, study\<close>, though the note has no word longer than 4 characters once the
  punctuation is stripped.
\<close>

theorem smart_tags_counterexample:
  "ai_tools ascii_lower ((empty_request (lit ''smart_tags''))\<lparr>user_note := Some (lit ''x....'')\<rparr>) =
     Inr (lit ''x'') \<and>
   length (lit ''x'') = 1 \<and> lit ''x'' \<noteq> lit ''general, study''"
proof -
  let ?req = "(empty_request (lit ''smart_tags''))\<lparr>user_note := Some (lit ''x....'')\<rparr>"
  let ?b = "lit ''x....''"
  let ?p = "tags_header @ nl @ ?b"
  have f: "flow ?req = lit ''smart_tags''"
    by (simp add: empty_request_def)
  have i: "interpolate ?req (tags_header @ nl @ lit ''{{user_note}}'') = ?p"
    by (simp add: interpolate_def empty_request_def or_empty_def lit_def nl_def tags_header_def)
  have h: "header_of ?p = tags_header" and b: "body_of ?p = ?b"
    by (rule two_line_prompt; simp add: tags_header_def lit_def is_linebreak_def isspace_def)+
  have "apply_rules ascii_lower tags_header ?b = smart_tags ascii_lower ?b"
    using tags_header_selected tags_rule_in_table by (rule selected_rule)
  moreover have "smart_tags ascii_lower ?b = lit ''x''"
    by (simp add: smart_tags_def tag_words_def split_ws_def or_else_def strip_chars_def
        ascii_lower_def isspace_def lit_def)
  ultimately have "simple_rule_engine ascii_lower ?p = lit ''x''"
    by (simp add: simple_rule_engine_def h b)
  then have "ai_tools ascii_lower ?req = Inr (lit ''x'')"
    by (simp add: ai_tools_def f tags_template i)
  then show ?thesis
    by (simp add: lit_def)
qed

section \<open>Placeholder resolution\<close>

lemma take_append_le: "n \<le> length a \<Longrightarrow> take n (a @ s) = take n a"
  by simp

lemma drop_append_le: "n \<le> length a \<Longrightarrow> drop n (a @ s) = drop n a @ s"
  by simp

lemma take_beyond: "length a < n \<Longrightarrow> c \<in> set (take n (a @ c # b))"
  by (cases "n - length a") auto

text \<open>
  A character that does not occur in \<open>old\<close> splits the work of \<open>replace\<close>: no occurrence
  of \<open>old\<close> reaches across it.
\<close>

lemma replace_sep:
  assumes "c \<notin> set old" "old \<noteq> []"
  shows "replace old new (a @ c # b) = replace old new a @ c # replace old new b"
  using assms
proof (induction old new a rule: replace.induct)
  case (1 old new)
  then have "take (length old) (c # b) \<noteq> old"
    by (cases old) auto
  with 1 show ?case
    by simp
next
  case (2 old new x xs)
  let ?n = "length old"
  show ?case
  proof (cases "take ?n (x # xs) = old")
    case True
    then have "length (take ?n (x # xs)) = ?n"
      by simp
    then have le: "?n \<le> length (x # xs)"
      by (simp only: length_take)
    from True 2 take_append_le [OF le, of "c # b"] drop_append_le [OF le, of "c # b"]
    show ?thesis
      by simp
  next
    case False
    have "take ?n ((x # xs) @ c # b) \<noteq> old"
    proof
      assume eq: "take ?n ((x # xs) @ c # b) = old"
      show False
      proof (cases "?n \<le> length (x # xs)")
        case True
        with eq False take_append_le [OF True, of "c # b"] show False
          by simp
      next
        case long: False
        then have "c \<in> set (take ?n ((x # xs) @ c # b))"
          by (intro take_beyond) simp
        with eq "2.prems"(1) show False
          by simp
      qed
    qed
    with 2 False show ?thesis
      by simp
  qed
qed

text \<open>A prefix without the first character of \<open>old\<close> is passed over.\<close>

lemma replace_skip:
  assumes "old \<noteq> []" "hd old \<notin> set p"
  shows "replace old new (p @ s) = p @ replace old new s"
  using assms
proof (induction p)
  case Nil
  show ?case
    by simp
next
  case (Cons c p)
  then have "take (length old) (c # p @ s) \<noteq> old"
    by (cases old) auto
  with Cons show ?case
    by simp
qed

text \<open>
  A template that is a text without \<open>{\<close> followed by one placeholder: the replacements
  before the slot's own leave the token, its own puts the value in, and the later ones
  find nothing in the value.
\<close>

lemma resolve_tail:
  assumes "123 \<notin> set p" "literal_inputs req"
  shows "interpolate req (p @ token s) = p @ input_value req s"
  using assms
  by (cases s)
    (simp_all add: interpolate_def literal_inputs_def slot_order_def lit_def replace_skip
      replace_absent)

text \<open>
  For each flow: its pieces, that they render to its template in \<open>FLOW_PROMPTS\<close>, and
  that the seven replacements fill them literally when no input value contains the token
  of a later slot.
\<close>

lemma resolve_summarize:
  "pieces_of (lit ''summarize'') =
     [Text (lit ''Summarize this note clearly and simply:'' @ nl), Slot UserNote] \<and>
   map_of FLOW_PROMPTS (lit ''summarize'') = Some (render (pieces_of (lit ''summarize''))) \<and>
   (literal_inputs req \<longrightarrow>
      interpolate req (render (pieces_of (lit ''summarize''))) = fill req (pieces_of (lit ''summarize'')))"
proof -
  have p: "pieces_of (lit ''summarize'') =
     [Text (lit ''Summarize this note clearly and simply:'' @ nl), Slot UserNote]"
    by (simp add: pieces_of_def FLOW_PIECES_def lit_eq_iff)
  have "map_of FLOW_PROMPTS (lit ''summarize'') = Some (render (pieces_of (lit ''summarize'')))"
    unfolding p
    by (simp add: FLOW_PROMPTS_def lit_eq_iff) (simp add: render_def tags_header_def lit_def)
  moreover have notin: "123 \<notin> set (lit ''Summarize this note clearly and simply:'' @ nl)"
    by (simp add: tags_header_def lit_def nl_def)
  have "interpolate req (render (pieces_of (lit ''summarize''))) =
      fill req (pieces_of (lit ''summarize''))" if "literal_inputs req"
    unfolding p using resolve_tail [OF notin that, where s = UserNote]
    by (simp add: render_def fill_def)
  ultimately show ?thesis
    using p by simp
qed

lemma resolve_rewrite:
  "pieces_of (lit ''rewrite'') =
     [Text (lit ''Rewrite and improve this text. Make it clean, clear, and high quality:'' @ nl), Slot UserNote] \<and>
   map_of FLOW_PROMPTS (lit ''rewrite'') = Some (render (pieces_of (lit ''rewrite''))) \<and>
   (literal_inputs req \<longrightarrow>
      interpolate req (render (pieces_of (lit ''rewrite''))) = fill req (pieces_of (lit ''rewrite'')))"
proof -
  have p: "pieces_of (lit ''rewrite'') =
     [Text (lit ''Rewrite and improve this text. Make it clean, clear, and high quality:'' @ nl), Slot UserNote]"
    by (simp add: pieces_of_def FLOW_PIECES_def lit_eq_iff)
  have "map_of FLOW_PROMPTS (lit ''rewrite'') = Some (render (pieces_of (lit ''rewrite'')))"
    unfolding p
    by (simp add: FLOW_PROMPTS_def lit_eq_iff) (simp add: render_def tags_header_def lit_def)
  moreover have notin: "123 \<notin> set (lit ''Rewrite and improve this text. Make it clean, clear, and high quality:'' @ nl)"
    by (simp add: tags_header_def lit_def nl_def)
  have "interpolate req (render (pieces_of (lit ''rewrite''))) =
      fill req (pieces_of (lit ''rewrite''))" if "literal_inputs req"
    unfolding p using resolve_tail [OF notin that, where s = UserNote]
    by (simp add: render_def fill_def)
  ultimately show ?thesis
    using p by simp
qed

lemma resolve_bullet_points:
  "pieces_of (lit ''bullet_points'') =
     [Text (lit ''Turn this into clean bullet points:'' @ nl), Slot UserNote] \<and>
   map_of FLOW_PROMPTS (lit ''bullet_points'') = Some (render (pieces_of (lit ''bullet_points''))) \<and>
   (literal_inputs req \<longrightarrow>
      interpolate req (render (pieces_of (lit ''bullet_points''))) = fill req (pieces_of (lit ''bullet_points'')))"
proof -
  have p: "pieces_of (lit ''bullet_points'') =
     [Text (lit ''Turn this into clean bullet points:'' @ nl), Slot UserNote]"
    by (simp add: pieces_of_def FLOW_PIECES_def lit_eq_iff)
  have "map_of FLOW_PROMPTS (lit ''bullet_points'') = Some (render (pieces_of (lit ''bullet_points'')))"
    unfolding p
    by (simp add: FLOW_PROMPTS_def lit_eq_iff) (simp add: render_def tags_header_def lit_def)
  moreover have notin: "123 \<notin> set (lit ''Turn this into clean bullet points:'' @ nl)"
    by (simp add: tags_header_def lit_def nl_def)
  have "interpolate req (render (pieces_of (lit ''bullet_points''))) =
      fill req (pieces_of (lit ''bullet_points''))" if "literal_inputs req"
    unfolding p using resolve_tail [OF notin that, where s = UserNote]
    by (simp add: render_def fill_def)
  ultimately show ?thesis
    using p by simp
qed

lemma resolve_short_version:
  "pieces_of (lit ''short_version'') =
     [Text (lit ''Create a short and crisp version of this:'' @ nl), Slot UserNote] \<and>
   map_of FLOW_PROMPTS (lit ''short_version'') = Some (render (pieces_of (lit ''short_version''))) \<and>
   (literal_inputs req \<longrightarrow>
      interpolate req (render (pieces_of (lit ''short_version''))) = fill req (pieces_of (lit ''short_version'')))"
proof -
  have p: "pieces_of (lit ''short_version'') =
     [Text (lit ''Create a short and crisp version of this:'' @ nl), Slot UserNote]"
    by (simp add: pieces_of_def FLOW_PIECES_def lit_eq_iff)
  have "map_of FLOW_PROMPTS (lit ''short_version'') = Some (render (pieces_of (lit ''short_version'')))"
    unfolding p
    by (simp add: FLOW_PROMPTS_def lit_eq_iff) (simp add: render_def tags_header_def lit_def)
  moreover have notin: "123 \<notin> set (lit ''Create a short and crisp version of this:'' @ nl)"
    by (simp add: tags_header_def lit_def nl_def)
  have "interpolate req (render (pieces_of (lit ''short_version''))) =
      fill req (pieces_of (lit ''short_version''))" if "literal_inputs req"
    unfolding p using resolve_tail [OF notin that, where s = UserNote]
    by (simp add: render_def fill_def)
  ultimately show ?thesis
    using p by simp
qed

lemma resolve_eli5:
  "pieces_of (lit ''eli5'') =
     [Text (lit ''Explain the following note like I am 5 years old:'' @ nl), Slot UserNote] \<and>
   map_of FLOW_PROMPTS (lit ''eli5'') = Some (render (pieces_of (lit ''eli5''))) \<and>
   (literal_inputs req \<longrightarrow>
      interpolate req (render (pieces_of (lit ''eli5''))) = fill req (pieces_of (lit ''eli5'')))"
proof -
  have p: "pieces_of (lit ''eli5'') =
     [Text (lit ''Explain the following note like I am 5 years old:'' @ nl), Slot UserNote]"
    by (simp add: pieces_of_def FLOW_PIECES_def lit_eq_iff)
  have "map_of FLOW_PROMPTS (lit ''eli5'') = Some (render (pieces_of (lit ''eli5'')))"
    unfolding p
    by (simp add: FLOW_PROMPTS_def lit_eq_iff) (simp add: render_def tags_header_def lit_def)
  moreover have notin: "123 \<notin> set (lit ''Explain the following note like I am 5 years old:'' @ nl)"
    by (simp add: tags_header_def lit_def nl_def)
  have "interpolate req (render (pieces_of (lit ''eli5''))) =
      fill req (pieces_of (lit ''eli5''))" if "literal_inputs req"
    unfolding p using resolve_tail [OF notin that, where s = UserNote]
    by (simp add: render_def fill_def)
  ultimately show ?thesis
    using p by simp
qed

lemma resolve_flashcards:
  "pieces_of (lit ''flashcards'') =
     [Text (lit ''Create flashcards (term : definition) from this text:'' @ nl), Slot UserNote] \<and>
   map_of FLOW_PROMPTS (lit ''flashcards'') = Some (render (pieces_of (lit ''flashcards''))) \<and>
   (literal_inputs req \<longrightarrow>
      interpolate req (render (pieces_of (lit ''flashcards''))) = fill req (pieces_of (lit ''flashcards'')))"
proof -
  have p: "pieces_of (lit ''flashcards'') =
     [Text (lit ''Create flashcards (term : definition) from this text:'' @ nl), Slot UserNote]"
    by (simp add: pieces_of_def FLOW_PIECES_def lit_eq_iff)
  have "map_of FLOW_PROMPTS (lit ''flashcards'') = Some (render (pieces_of (lit ''flashcards'')))"
    unfolding p
    by (simp add: FLOW_PROMPTS_def lit_eq_iff) (simp add: render_def tags_header_def lit_def)
  moreover have notin: "123 \<notin> set (lit ''Create flashcards (term : definition) from this text:'' @ nl)"
    by (simp add: tags_header_def lit_def nl_def)
  have "interpolate req (render (pieces_of (lit ''flashcards''))) =
      fill req (pieces_of (lit ''flashcards''))" if "literal_inputs req"
    unfolding p using resolve_tail [OF notin that, where s = UserNote]
    by (simp add: render_def fill_def)
  ultimately show ?thesis
    using p by simp
qed

lemma resolve_mcqs:
  "pieces_of (lit ''mcqs'') =
     [Text (lit ''Create 5 MCQs with correct answers from this text:'' @ nl), Slot UserNote] \<and>
   map_of FLOW_PROMPTS (lit ''mcqs'') = Some (render (pieces_of (lit ''mcqs''))) \<and>
   (literal_inputs req \<longrightarrow>
      interpolate req (render (pieces_of (lit ''mcqs''))) = fill req (pieces_of (lit ''mcqs'')))"
proof -
  have p: "pieces_of (lit ''mcqs'') =
     [Text (lit ''Create 5 MCQs with correct answers from this text:'' @ nl), Slot UserNote]"
    by (simp add: pieces_of_def FLOW_PIECES_def lit_eq_iff)
  have "map_of FLOW_PROMPTS (lit ''mcqs'') = Some (render (pieces_of (lit ''mcqs'')))"
    unfolding p
    by (simp add: FLOW_PROMPTS_def lit_eq_iff) (simp add: render_def tags_header_def lit_def)
  moreover have notin: "123 \<notin> set (lit ''Create 5 MCQs with correct answers from this text:'' @ nl)"
    by (simp add: tags_header_def lit_def nl_def)
  have "interpolate req (render (pieces_of (lit ''mcqs''))) =
      fill req (pieces_of (lit ''mcqs''))" if "literal_inputs req"
    unfolding p using resolve_tail [OF notin that, where s = UserNote]
    by (simp add: render_def fill_def)
  ultimately show ?thesis
    using p by simp
qed

lemma resolve_short_questions:
  "pieces_of (lit ''short_questions'') =
     [Text (lit ''Create 5 short answer questions with answers from this text:'' @ nl), Slot UserNote] \<and>
   map_of FLOW_PROMPTS (lit ''short_questions'') = Some (render (pieces_of (lit ''short_questions''))) \<and>
   (literal_inputs req \<longrightarrow>
      interpolate req (render (pieces_of (lit ''short_questions''))) = fill req (pieces_of (lit ''short_questions'')))"
proof -
  have p: "pieces_of (lit ''short_questions'') =
     [Text (lit ''Create 5 short answer questions with answers from this text:'' @ nl), Slot UserNote]"
    by (simp add: pieces_of_def FLOW_PIECES_def lit_eq_iff)
  have "map_of FLOW_PROMPTS (lit ''short_questions'') = Some (render (pieces_of (lit ''short_questions'')))"
    unfolding p
    by (simp add: FLOW_PROMPTS_def lit_eq_iff) (simp add: render_def tags_header_def lit_def)
  moreover have notin: "123 \<notin> set (lit ''Create 5 short answer questions with answers from this text:'' @ nl)"
    by (simp add: tags_header_def lit_def nl_def)
  have "interpolate req (render (pieces_of (lit ''short_questions''))) =
      fill req (pieces_of (lit ''short_questions''))" if "literal_inputs req"
    unfolding p using resolve_tail [OF notin that, where s = UserNote]
    by (simp add: render_def fill_def)
  ultimately show ?thesis
    using p by simp
qed

lemma resolve_chapter_summary:
  "pieces_of (lit ''chapter_summary'') =
     [Text (lit ''Split this note into chapters/sections and summarize each one:'' @ nl), Slot UserNote] \<and>
   map_of FLOW_PROMPTS (lit ''chapter_summary'') = Some (render (pieces_of (lit ''chapter_summary''))) \<and>
   (literal_inputs req \<longrightarrow>
      interpolate req (render (pieces_of (lit ''chapter_summary''))) = fill req (pieces_of (lit ''chapter_summary'')))"
proof -
  have p: "pieces_of (lit ''chapter_summary'') =
     [Text (lit ''Split this note into chapters/sections and summarize each one:'' @ nl), Slot UserNote]"
    by (simp add: pieces_of_def FLOW_PIECES_def lit_eq_iff)
  have "map_of FLOW_PROMPTS (lit ''chapter_summary'') = Some (render (pieces_of (lit ''chapter_summary'')))"
    unfolding p
    by (simp add: FLOW_PROMPTS_def lit_eq_iff) (simp add: render_def tags_header_def lit_def)
  moreover have notin: "123 \<notin> set (lit ''Split this note into chapters/sections and summarize each one:'' @ nl)"
    by (simp add: tags_header_def lit_def nl_def)
  have "interpolate req (render (pieces_of (lit ''chapter_summary''))) =
      fill req (pieces_of (lit ''chapter_summary''))" if "literal_inputs req"
    unfolding p using resolve_tail [OF notin that, where s = UserNote]
    by (simp add: render_def fill_def)
  ultimately show ?thesis
    using p by simp
qed

lemma resolve_mindmap:
  "pieces_of (lit ''mindmap'') =
     [Text (lit ''Convert this note into a hierarchical mindmap:'' @ nl @ nl @ lit ''Topic'' @ nl @ nl @ lit ''Subtopic'' @ nl @ nl @ lit ''Points'' @ nl @ lit ''Text: ''), Slot UserNote] \<and>
   map_of FLOW_PROMPTS (lit ''mindmap'') = Some (render (pieces_of (lit ''mindmap''))) \<and>
   (literal_inputs req \<longrightarrow>
      interpolate req (render (pieces_of (lit ''mindmap''))) = fill req (pieces_of (lit ''mindmap'')))"
proof -
  have p: "pieces_of (lit ''mindmap'') =
     [Text (lit ''Convert this note into a hierarchical mindmap:'' @ nl @ nl @ lit ''Topic'' @ nl @ nl @ lit ''Subtopic'' @ nl @ nl @ lit ''Points'' @ nl @ lit ''Text: ''), Slot UserNote]"
    by (simp add: pieces_of_def FLOW_PIECES_def lit_eq_iff)
  have "map_of FLOW_PROMPTS (lit ''mindmap'') = Some (render (pieces_of (lit ''mindmap'')))"
    unfolding p
    by (simp add: FLOW_PROMPTS_def lit_eq_iff) (simp add: render_def tags_header_def lit_def)
  moreover have notin: "123 \<notin> set (lit ''Convert this note into a hierarchical mindmap:'' @ nl @ nl @ lit ''Topic'' @ nl @ nl @ lit ''Subtopic'' @ nl @ nl @ lit ''Points'' @ nl @ lit ''Text: '')"
    by (simp add: tags_header_def lit_def nl_def)
  have "interpolate req (render (pieces_of (lit ''mindmap''))) =
      fill req (pieces_of (lit ''mindmap''))" if "literal_inputs req"
    unfolding p using resolve_tail [OF notin that, where s = UserNote]
    by (simp add: render_def fill_def)
  ultimately show ?thesis
    using p by simp
qed

lemma resolve_smart_tags:
  "pieces_of (lit ''smart_tags'') =
     [Text (tags_header @ nl), Slot UserNote] \<and>
   map_of FLOW_PROMPTS (lit ''smart_tags'') = Some (render (pieces_of (lit ''smart_tags''))) \<and>
   (literal_inputs req \<longrightarrow>
      interpolate req (render (pieces_of (lit ''smart_tags''))) = fill req (pieces_of (lit ''smart_tags'')))"
proof -
  have p: "pieces_of (lit ''smart_tags'') =
     [Text (tags_header @ nl), Slot UserNote]"
    by (simp add: pieces_of_def FLOW_PIECES_def lit_eq_iff)
  have "map_of FLOW_PROMPTS (lit ''smart_tags'') = Some (render (pieces_of (lit ''smart_tags'')))"
    unfolding p
    by (simp add: FLOW_PROMPTS_def lit_eq_iff) (simp add: render_def tags_header_def lit_def)
  moreover have notin: "123 \<notin> set (tags_header @ nl)"
    by (simp add: tags_header_def lit_def nl_def)
  have "interpolate req (render (pieces_of (lit ''smart_tags''))) =
      fill req (pieces_of (lit ''smart_tags''))" if "literal_inputs req"
    unfolding p using resolve_tail [OF notin that, where s = UserNote]
    by (simp add: render_def fill_def)
  ultimately show ?thesis
    using p by simp
qed

lemma resolve_study_plan:
  "pieces_of (lit ''study_plan'') =
     [Text (lit ''Create a 7-day and 30-day study plan for the following syllabus/topic:'' @ nl), Slot UserSyllabus] \<and>
   map_of FLOW_PROMPTS (lit ''study_plan'') = Some (render (pieces_of (lit ''study_plan''))) \<and>
   (literal_inputs req \<longrightarrow>
      interpolate req (render (pieces_of (lit ''study_plan''))) = fill req (pieces_of (lit ''study_plan'')))"
proof -
  have p: "pieces_of (lit ''study_plan'') =
     [Text (lit ''Create a 7-day and 30-day study plan for the following syllabus/topic:'' @ nl), Slot UserSyllabus]"
    by (simp add: pieces_of_def FLOW_PIECES_def lit_eq_iff)
  have "map_of FLOW_PROMPTS (lit ''study_plan'') = Some (render (pieces_of (lit ''study_plan'')))"
    unfolding p
    by (simp add: FLOW_PROMPTS_def lit_eq_iff) (simp add: render_def tags_header_def lit_def)
  moreover have notin: "123 \<notin> set (lit ''Create a 7-day and 30-day study plan for the following syllabus/topic:'' @ nl)"
    by (simp add: tags_header_def lit_def nl_def)
  have "interpolate req (render (pieces_of (lit ''study_plan''))) =
      fill req (pieces_of (lit ''study_plan''))" if "literal_inputs req"
    unfolding p using resolve_tail [OF notin that, where s = UserSyllabus]
    by (simp add: render_def fill_def)
  ultimately show ?thesis
    using p by simp
qed

lemma resolve_compare_notes:
  "pieces_of (lit ''compare_notes'') =
     [Text (lit ''Compare these two notes and list similarities, differences, and key insights:'' @ nl @ lit ''Note 1: ''), Slot Note1, Text (nl @ lit ''Note 2: ''), Slot Note2] \<and>
   map_of FLOW_PROMPTS (lit ''compare_notes'') = Some (render (pieces_of (lit ''compare_notes''))) \<and>
   (literal_inputs req \<longrightarrow>
      interpolate req (render (pieces_of (lit ''compare_notes''))) = fill req (pieces_of (lit ''compare_notes'')))"
proof -
  have p: "pieces_of (lit ''compare_notes'') =
     [Text (lit ''Compare these two notes and list similarities, differences, and key insights:'' @ nl @ lit ''Note 1: ''), Slot Note1, Text (nl @ lit ''Note 2: ''), Slot Note2]"
    by (simp add: pieces_of_def FLOW_PIECES_def lit_eq_iff)
  have "map_of FLOW_PROMPTS (lit ''compare_notes'') = Some (render (pieces_of (lit ''compare_notes'')))"
    unfolding p
    by (simp add: FLOW_PROMPTS_def lit_eq_iff) (simp add: render_def tags_header_def lit_def)
  moreover have "interpolate req (render (pieces_of (lit ''compare_notes''))) =
      fill req (pieces_of (lit ''compare_notes''))" if "literal_inputs req"
    using that unfolding p
    by (simp add: interpolate_def render_def fill_def literal_inputs_def slot_order_def
        tags_header_def lit_def nl_def replace_absent replace_sep)
  ultimately show ?thesis
    using p by simp
qed

lemma resolve_voice_cleanup:
  "pieces_of (lit ''voice_cleanup'') =
     [Text (lit ''Clean and format this speech transcript. Remove filler words.'' @ nl @ lit ''Transcript: ''), Slot VoiceText] \<and>
   map_of FLOW_PROMPTS (lit ''voice_cleanup'') = Some (render (pieces_of (lit ''voice_cleanup''))) \<and>
   (literal_inputs req \<longrightarrow>
      interpolate req (render (pieces_of (lit ''voice_cleanup''))) = fill req (pieces_of (lit ''voice_cleanup'')))"
proof -
  have p: "pieces_of (lit ''voice_cleanup'') =
     [Text (lit ''Clean and format this speech transcript. Remove filler words.'' @ nl @ lit ''Transcript: ''), Slot VoiceText]"
    by (simp add: pieces_of_def FLOW_PIECES_def lit_eq_iff)
  have "map_of FLOW_PROMPTS (lit ''voice_cleanup'') = Some (render (pieces_of (lit ''voice_cleanup'')))"
    unfolding p
    by (simp add: FLOW_PROMPTS_def lit_eq_iff) (simp add: render_def tags_header_def lit_def)
  moreover have notin: "123 \<notin> set (lit ''Clean and format this speech transcript. Remove filler words.'' @ nl @ lit ''Transcript: '')"
    by (simp add: tags_header_def lit_def nl_def)
  have "interpolate req (render (pieces_of (lit ''voice_cleanup''))) =
      fill req (pieces_of (lit ''voice_cleanup''))" if "literal_inputs req"
    unfolding p using resolve_tail [OF notin that, where s = VoiceText]
    by (simp add: render_def fill_def)
  ultimately show ?thesis
    using p by simp
qed

lemma resolve_pdf_extract_summary:
  "pieces_of (lit ''pdf_extract_summary'') =
     [Text (lit ''Extract main ideas and important points from this PDF text:'' @ nl), Slot PdfText] \<and>
   map_of FLOW_PROMPTS (lit ''pdf_extract_summary'') = Some (render (pieces_of (lit ''pdf_extract_summary''))) \<and>
   (literal_inputs req \<longrightarrow>
      interpolate req (render (pieces_of (lit ''pdf_extract_summary''))) = fill req (pieces_of (lit ''pdf_extract_summary'')))"
proof -
  have p: "pieces_of (lit ''pdf_extract_summary'') =
     [Text (lit ''Extract main ideas and important points from this PDF text:'' @ nl), Slot PdfText]"
    by (simp add: pieces_of_def FLOW_PIECES_def lit_eq_iff)
  have "map_of FLOW_PROMPTS (lit ''pdf_extract_summary'') = Some (render (pieces_of (lit ''pdf_extract_summary'')))"
    unfolding p
    by (simp add: FLOW_PROMPTS_def lit_eq_iff) (simp add: render_def tags_header_def lit_def)
  moreover have notin: "123 \<notin> set (lit ''Extract main ideas and important points from this PDF text:'' @ nl)"
    by (simp add: tags_header_def lit_def nl_def)
  have "interpolate req (render (pieces_of (lit ''pdf_extract_summary''))) =
      fill req (pieces_of (lit ''pdf_extract_summary''))" if "literal_inputs req"
    unfolding p using resolve_tail [OF notin that, where s = PdfText]
    by (simp add: render_def fill_def)
  ultimately show ?thesis
    using p by simp
qed

lemma resolve_memory_recall:
  "pieces_of (lit ''memory_recall'') =
     [Text (lit ''From the saved notes, find the notes most related to: ''), Slot Query, Text (nl @ lit ''Summarize the findings in simple language.'')] \<and>
   map_of FLOW_PROMPTS (lit ''memory_recall'') = Some (render (pieces_of (lit ''memory_recall''))) \<and>
   (literal_inputs req \<longrightarrow>
      interpolate req (render (pieces_of (lit ''memory_recall''))) = fill req (pieces_of (lit ''memory_recall'')))"
proof -
  have p: "pieces_of (lit ''memory_recall'') =
     [Text (lit ''From the saved notes, find the notes most related to: ''), Slot Query, Text (nl @ lit ''Summarize the findings in simple language.'')]"
    by (simp add: pieces_of_def FLOW_PIECES_def lit_eq_iff)
  have "map_of FLOW_PROMPTS (lit ''memory_recall'') = Some (render (pieces_of (lit ''memory_recall'')))"
    unfolding p
    by (simp add: FLOW_PROMPTS_def lit_eq_iff) (simp add: render_def tags_header_def lit_def)
  moreover have "interpolate req (render (pieces_of (lit ''memory_recall''))) =
      fill req (pieces_of (lit ''memory_recall''))" if "literal_inputs req"
    using that unfolding p
    by (simp add: interpolate_def render_def fill_def literal_inputs_def slot_order_def
        tags_header_def lit_def nl_def replace_absent replace_sep)
  ultimately show ?thesis
    using p by simp
qed

text \<open>
  Claim C1, as the code has it. For every flow of the registry, the template is the
  rendering of the flow's pieces, and for every request in which no input value contains
  the token of a slot that is replaced later (the order is \<open>user_note\<close>,
  \<open>user_syllabus\<close>, \<open>note1\<close>, \<open>note2\<close>, \<open>voice_text\<close>, \<open>pdf_text\<close>, \<open>query\<close>), the
  resolved instruction is the template with each placeholder replaced by its input
  value, taken literally: it differs from the template at the placeholders only. A
  token of the value's own slot or of an earlier slot inside a value stays as it is.
\<close>

theorem resolution_is_literal_without_later_tokens:
  assumes "f \<in> set flow_ids"
  shows "map_of FLOW_PROMPTS f = Some (render (pieces_of f)) \<and>
         (literal_inputs req \<longrightarrow> interpolate req (render (pieces_of f)) = fill req (pieces_of f))"
proof -
  from assms consider
      "f = lit ''summarize''"
    | "f = lit ''rewrite''"
    | "f = lit ''bullet_points''"
    | "f = lit ''short_version''"
    | "f = lit ''eli5''"
    | "f = lit ''flashcards''"
    | "f = lit ''mcqs''"
    | "f = lit ''short_questions''"
    | "f = lit ''chapter_summary''"
    | "f = lit ''mindmap''"
    | "f = lit ''smart_tags''"
    | "f = lit ''study_plan''"
    | "f = lit ''compare_notes''"
    | "f = lit ''voice_cleanup''"
    | "f = lit ''pdf_extract_summary''"
    | "f = lit ''memory_recall''"
    unfolding flow_ids_eq by auto
  then show ?thesis
  proof cases
    case 1
    then show ?thesis
      using resolve_summarize [of req] by blast
  next
    case 2
    then show ?thesis
      using resolve_rewrite [of req] by blast
  next
    case 3
    then show ?thesis
      using resolve_bullet_points [of req] by blast
  next
    case 4
    then show ?thesis
      using resolve_short_version [of req] by blast
  next
    case 5
    then show ?thesis
      using resolve_eli5 [of req] by blast
  next
    case 6
    then show ?thesis
      using resolve_flashcards [of req] by blast
  next
    case 7
    then show ?thesis
      using resolve_mcqs [of req] by blast
  next
    case 8
    then show ?thesis
      using resolve_short_questions [of req] by blast
  next
    case 9
    then show ?thesis
      using resolve_chapter_summary [of req] by blast
  next
    case 10
    then show ?thesis
      using resolve_mindmap [of req] by blast
  next
    case 11
    then show ?thesis
      using resolve_smart_tags [of req] by blast
  next
    case 12
    then show ?thesis
      using resolve_study_plan [of req] by blast
  next
    case 13
    then show ?thesis
      using resolve_compare_notes [of req] by blast
  next
    case 14
    then show ?thesis
      using resolve_voice_cleanup [of req] by blast
  next
    case 15
    then show ?thesis
      using resolve_pdf_extract_summary [of req] by blast
  next
    case 16
    then show ?thesis
      using resolve_memory_recall [of req] by blast
  qed
qed

lemma compare_request_literal: "literal_inputs compare_request"
  by (simp add: literal_inputs_def slot_order_def compare_request_def empty_request_def
      or_empty_def lit_def)

theorem resolution_is_literal_without_later_tokens_witness:
  "literal_inputs compare_request \<and>
   interpolate compare_request (render (pieces_of (lit ''compare_notes''))) =
     lit ''Compare these two notes and list similarities, differences, and key insights:'' @ nl @
     lit ''Note 1: {{user_note}} first'' @ nl @ lit ''Note 2: second''"
proof -
  have "lit ''compare_notes'' \<in> set flow_ids"
    by (simp add: flow_ids_eq)
  from resolution_is_literal_without_later_tokens [OF this, of compare_request]
    compare_request_literal
  have "interpolate compare_request (render (pieces_of (lit ''compare_notes''))) =
      fill compare_request (pieces_of (lit ''compare_notes''))"
    by blast
  moreover have "fill compare_request (pieces_of (lit ''compare_notes'')) =
      lit ''Compare these two notes and list similarities, differences, and key insights:'' @ nl @
      lit ''Note 1: {{user_note}} first'' @ nl @ lit ''Note 2: second''"
    unfolding resolve_compare_notes [THEN conjunct1]
    by (simp add: fill_def compare_request_def empty_request_def or_empty_def lit_def nl_def)
  ultimately show ?thesis
    using compare_request_literal by simp
qed

text \<open>
  The claim as stated fails: the replacements run one after the other, each on the
  result of the one before, so a value put in by an early replacement is searched by the
  later ones. With the note \<open>{{query}}\<close> and the query \<open>tulips\<close>, the flow \<open>summarize\<close>
  resolves its template to an instruction that ends in \<open>tulips\<close>, not in the note's own
  text, and returns \<open>Summary: tulips\<close>.
\<close>

theorem resolution_counterexample:
  "map_of FLOW_PROMPTS (flow nested_request) =
     Some (lit ''Summarize this note clearly and simply:'' @ nl @ lit ''{{user_note}}'') \<and>
   or_empty (user_note nested_request) = lit ''{{query}}'' \<and>
   interpolate nested_request
     (lit ''Summarize this note clearly and simply:'' @ nl @ lit ''{{user_note}}'') =
     lit ''Summarize this note clearly and simply:'' @ nl @ lit ''tulips'' \<and>
   lit ''Summarize this note clearly and simply:'' @ nl @ lit ''tulips'' \<noteq>
     lit ''Summarize this note clearly and simply:'' @ nl @ lit ''{{query}}'' \<and>
   ai_tools ascii_lower nested_request = Inr (lit ''Summary: tulips'')"
proof -
  let ?h = "lit ''Summarize this note clearly and simply:''"
  have t: "map_of FLOW_PROMPTS (flow nested_request) = Some (?h @ nl @ lit ''{{user_note}}'')"
    by (simp add: nested_request_def empty_request_def FLOW_PROMPTS_def lit_def)
  have v: "or_empty (user_note nested_request) = lit ''{{query}}''"
    by (simp add: nested_request_def empty_request_def or_empty_def)
  have i: "interpolate nested_request (?h @ nl @ lit ''{{user_note}}'') = ?h @ nl @ lit ''tulips''"
    by (simp add: interpolate_def nested_request_def empty_request_def or_empty_def lit_def nl_def)
  have h: "header_of (?h @ nl @ lit ''tulips'') = ?h"
    and b: "body_of (?h @ nl @ lit ''tulips'') = lit ''tulips''"
    by (rule two_line_prompt; simp add: lit_def is_linebreak_def isspace_def)+
  have "selected ascii_lower ?h = Some (lit ''summarize this note'')"
    by (simp add: selected_def first_match_def rule_table_def lit_def ascii_lower_def)
  moreover have "(lit ''summarize this note'', summarize) \<in> set (rule_table ascii_lower)"
    by (simp add: rule_table_def)
  ultimately have "apply_rules ascii_lower ?h (lit ''tulips'') = summarize (lit ''tulips'')"
    by (rule selected_rule)
  moreover have "summarize (lit ''tulips'') = lit ''Summary: tulips''"
    by (simp add: summarize_def lit_def)
  ultimately have "simple_rule_engine ascii_lower (?h @ nl @ lit ''tulips'') =
      lit ''Summary: tulips''"
    by (simp add: simple_rule_engine_def h b)
  with t i have out: "ai_tools ascii_lower nested_request = Inr (lit ''Summary: tulips'')"
    by (simp add: ai_tools_def)
  have "?h @ nl @ lit ''tulips'' \<noteq> ?h @ nl @ lit ''{{query}}''"
    by (simp add: lit_def)
  with t v i out show ?thesis
    by simp
qed

section \<open>A header with two matchers\<close>

lemma prompt_lines_Cons:
  assumes "\<forall>c\<in>set h. \<not> is_linebreak c" "h \<noteq> []" "\<not> isspace (hd h)" "\<not> isspace (last h)"
  shows "prompt_lines (h @ nl @ rest) = h # prompt_lines rest"
  using assms by (simp add: prompt_lines_def nl_def splitlines_line strip_id)

lemma split_on_not_Nil: "split_on sep s \<noteq> []"
  by (induction s) (auto split: list.splits)

lemma split_on_prefix:
  assumes "sep \<notin> set a"
  shows "split_on sep (a @ s) = (a @ hd (split_on sep s)) # tl (split_on sep s)"
  using assms
proof (induction a)
  case Nil
  show ?case
    using split_on_not_Nil [of sep s] by simp
next
  case (Cons c a)
  then show ?case
    by simp
qed

lemma crisp_bullet_lines:
  "prompt_lines crisp_bullet_prompt =
     [lit ''From the saved notes, find the notes most related to: bullet points, short and crisp'',
      replicate 257 120, lit ''Summarize the findings in simple language.'']"
proof -
  have "prompt_lines (replicate 257 120 @ nl @ lit ''Summarize the findings in simple language.'') =
      [replicate 257 120, lit ''Summarize the findings in simple language.'']"
    by (rule two_line_prompt; simp add: lit_def is_linebreak_def isspace_def)
  then show ?thesis
    unfolding crisp_bullet_prompt_def
    by (subst prompt_lines_Cons) (simp_all add: lit_def is_linebreak_def isspace_def)
qed

lemma crisp_bullet_interpolate:
  "map_of FLOW_PROMPTS (flow crisp_bullet_request) =
     Some (render (pieces_of (lit ''memory_recall''))) \<and>
   interpolate crisp_bullet_request (render (pieces_of (lit ''memory_recall''))) =
     crisp_bullet_prompt"
proof -
  have f: "flow crisp_bullet_request = lit ''memory_recall''"
    by (simp add: crisp_bullet_request_def empty_request_def)
  have "literal_inputs crisp_bullet_request"
    by (simp add: literal_inputs_def slot_order_def crisp_bullet_request_def empty_request_def
        or_empty_def lit_def)
  with resolve_memory_recall [of crisp_bullet_request]
  have "interpolate crisp_bullet_request (render (pieces_of (lit ''memory_recall''))) =
      fill crisp_bullet_request (pieces_of (lit ''memory_recall''))"
    by blast
  moreover have "fill crisp_bullet_request (pieces_of (lit ''memory_recall'')) = crisp_bullet_prompt"
    unfolding resolve_memory_recall [THEN conjunct1]
    by (simp add: fill_def crisp_bullet_request_def empty_request_def or_empty_def
        crisp_bullet_prompt_def lit_def nl_def)
  ultimately show ?thesis
    using resolve_memory_recall [of crisp_bullet_request] f by simp
qed

lemma crisp_bullet_output:
  "bullet_points (replicate 257 120 @ nl @ lit ''Summarize the findings in simple language.'') =
     lit ''- '' @ replicate 257 120 @ nl @ lit ''Summarize the findings in simple language''"
proof -
  let ?x = "replicate 257 (120::nat)"
  let ?line = "?x @ nl @ lit ''Summarize the findings in simple language''"
  have "split_on 46 (nl @ lit ''Summarize the findings in simple language.'') =
      [nl @ lit ''Summarize the findings in simple language'', []]"
    by (simp add: lit_def nl_def)
  then have "split_on 46 (?x @ nl @ lit ''Summarize the findings in simple language.'') = [?line, []]"
    by (subst split_on_prefix) simp_all
  moreover have "strip ?line = ?line"
    by (rule strip_id) (simp_all add: lit_def nl_def isspace_def)
  moreover have "strip [] = []"
    by (simp add: strip_def)
  moreover have "lit ''- '' @ ?line \<noteq> []"
    by (simp add: lit_def)
  ultimately show ?thesis
    by (simp add: bullet_points_def segments_def or_else_def)
qed

text \<open>
  The claim as stated fails when the header contains \<open>bullet points\<close> as well: that
  matcher is tried first. The query of this request puts both matchers into the header,
  the body has 300 characters, and the flow returns the body as one bullet of 301
  characters, not its first 220 characters and the ellipsis.
\<close>

theorem short_version_counterexample:
  "str_in (lit ''short and crisp'') (ascii_lower (header_of crisp_bullet_prompt)) \<and>
   length (body_of crisp_bullet_prompt) = 300 \<and>
   ai_tools ascii_lower crisp_bullet_request =
     Inr (lit ''- '' @ replicate 257 120 @ nl @ lit ''Summarize the findings in simple language'') \<and>
   length (lit ''- '' @ replicate 257 120 @ nl @ lit ''Summarize the findings in simple language'') = 301"
proof -
  let ?h = "lit ''From the saved notes, find the notes most related to: bullet points, short and crisp''"
  let ?b = "replicate 257 120 @ nl @ lit ''Summarize the findings in simple language.''"
  have h: "header_of crisp_bullet_prompt = ?h" and b: "body_of crisp_bullet_prompt = ?b"
    by (simp_all add: header_of_def body_of_def crisp_bullet_lines)
  have crisp: "str_in (lit ''short and crisp'') (ascii_lower ?h)"
    and bullet: "str_in (lit ''bullet points'') (ascii_lower ?h)"
    by (simp_all add: lit_def ascii_lower_def)
  have len: "length ?b = 300"
    by (simp add: lit_def nl_def)
  from bullet have "simple_rule_engine ascii_lower crisp_bullet_prompt = bullet_points ?b"
    by (simp add: simple_rule_engine_def apply_rules_def h b)
  then have "ai_tools ascii_lower crisp_bullet_request =
      Inr (lit ''- '' @ replicate 257 120 @ nl @ lit ''Summarize the findings in simple language'')"
    using crisp_bullet_interpolate by (simp add: ai_tools_def crisp_bullet_output)
  moreover have "length (lit ''- '' @ replicate 257 120 @ nl @
      lit ''Summarize the findings in simple language'') = 301"
    by (simp add: lit_def nl_def)
  ultimately show ?thesis
    using crisp len h b by simp
qed

end
